theory Spec2Isabelle
  imports Complex_Main
begin

section \<open>The rescheduling MILP of a charging cluster\<close>

text \<open>
  The function \<^verbatim>\<open>reschedule\<close> builds a Pyomo \<^verbatim>\<open>ConcreteModel\<close>, hands it to a
  solver and reads the variables back. The embedding follows the three phases:
  \<^item> Pyomo builds expression trees from the operators of the constraint rules; the trees
    are the datatype \<open>expr\<close>, relational expressions are \<open>relexpr\<close>, and a rule is a
    function into \<open>error + relexpr\<close>, where the error is the Python exception the rule
    raises (a missing dictionary key, an index a variable does not have, a division of an
    expression by a native zero, \<^verbatim>\<open>max\<close> of an empty list);
  \<^item> the solver is a parameter: it either raises or returns a result object and, when it
    found a solution, has loaded one value per variable into the model;
  \<^item> the extraction loop reads \<^verbatim>\<open>model.p_ev[v, t]()\<close> and \<^verbatim>\<open>model.s[v, t]()\<close> into
    two nested dictionaries.
  Python floats are modelled as exact reals.
\<close>

subsection \<open>Errors\<close>

datatype error = KeyError | ZeroDivisionError | ValueError | SolverError

definition bind :: "error + 'a \<Rightarrow> ('a \<Rightarrow> error + 'b) \<Rightarrow> error + 'b" where
  "bind m f = (case m of Inl e \<Rightarrow> Inl e | Inr x \<Rightarrow> f x)"

subsection \<open>Inputs of reschedule\<close>

type_synonym ev = string

text \<open>
  Every argument but the solver. A Python dictionary is a map; \<open>bcap\<close> is kept as an
  association list because the order of its keys is the order of \<^verbatim>\<open>model.V\<close>.
\<close>

record params =
  opt_step :: real
  opt_horizon :: "int list"
  upperlimit :: "int \<rightharpoonup> real"
  lowerlimit :: "int \<rightharpoonup> real"
  tolerance :: real
  bcap :: "(ev \<times> real) list"
  inisoc :: "ev \<rightharpoonup> real"
  tarsoc :: "ev \<rightharpoonup> real"
  minsoc :: "ev \<rightharpoonup> real"
  maxsoc :: "ev \<rightharpoonup> real"
  ch_eff :: "ev \<rightharpoonup> real"
  ds_eff :: "ev \<rightharpoonup> real"
  pmax_pos :: "ev \<rightharpoonup> real"
  pmax_neg :: "ev \<rightharpoonup> real"
  deptime :: "ev \<rightharpoonup> real"
  rho_y :: real
  rho_eps :: real

subsection \<open>Pyomo variables and expressions\<close>

text \<open>
  The variables of the model: \<^verbatim>\<open>p_ev\<close>, \<^verbatim>\<open>p_ev_pos\<close>, \<^verbatim>\<open>p_ev_neg\<close>, \<^verbatim>\<open>x_ev\<close>
  (indexed by vehicle and flow step), \<^verbatim>\<open>s\<close> (vehicle and SOC step), \<^verbatim>\<open>p_cc\<close> (flow step),
  \<^verbatim>\<open>eps\<close> and \<^verbatim>\<open>y\<close> (vehicle). The one-letter names \<^verbatim>\<open>s\<close> and \<^verbatim>\<open>y\<close> get a suffix.
\<close>

datatype var =
    p_ev ev int
  | p_ev_pos ev int
  | p_ev_neg ev int
  | x_ev ev int
  | s_var ev int
  | p_cc int
  | eps
  | y_var ev

datatype domain = Reals_dom | NonNegativeReals | Binary

fun domain_of :: "var \<Rightarrow> domain" where
  "domain_of (p_ev v t) = Reals_dom"
| "domain_of (p_ev_pos v t) = NonNegativeReals"
| "domain_of (p_ev_neg v t) = NonNegativeReals"
| "domain_of (x_ev v t) = Binary"
| "domain_of (s_var v t) = NonNegativeReals"
| "domain_of (p_cc t) = Reals_dom"
| "domain_of eps = NonNegativeReals"
| "domain_of (y_var v) = NonNegativeReals"

fun in_domain :: "domain \<Rightarrow> real \<Rightarrow> bool" where
  "in_domain Reals_dom x = True"
| "in_domain NonNegativeReals x = (0 \<le> x)"
| "in_domain Binary x = (x = 0 \<or> x = 1)"

datatype expr =
    Const real
  | Var var
  | Add expr expr
  | Sub expr expr
  | Mul expr expr
  | Div expr expr
  | Neg expr

datatype relexpr = Le expr expr | Eq expr expr | Ge expr expr

text \<open>The value of an expression and the truth of a relation under an assignment.\<close>

fun evaluate :: "(var \<Rightarrow> real) \<Rightarrow> expr \<Rightarrow> real" where
  "evaluate a (Const c) = c"
| "evaluate a (Var x) = a x"
| "evaluate a (Add e f) = evaluate a e + evaluate a f"
| "evaluate a (Sub e f) = evaluate a e - evaluate a f"
| "evaluate a (Mul e f) = evaluate a e * evaluate a f"
| "evaluate a (Div e f) = evaluate a e / evaluate a f"
| "evaluate a (Neg e) = - evaluate a e"

fun holds :: "(var \<Rightarrow> real) \<Rightarrow> relexpr \<Rightarrow> bool" where
  "holds a (Le e f) = (evaluate a e \<le> evaluate a f)"
| "holds a (Eq e f) = (evaluate a e = evaluate a f)"
| "holds a (Ge e f) = (evaluate a e \<ge> evaluate a f)"

text \<open>
  Linearity is a property of the tree: a product has a variable-free factor and a
  quotient a variable-free divisor.
\<close>

fun is_constant :: "expr \<Rightarrow> bool" where
  "is_constant (Const c) = True"
| "is_constant (Var x) = False"
| "is_constant (Add e f) = (is_constant e \<and> is_constant f)"
| "is_constant (Sub e f) = (is_constant e \<and> is_constant f)"
| "is_constant (Mul e f) = (is_constant e \<and> is_constant f)"
| "is_constant (Div e f) = (is_constant e \<and> is_constant f)"
| "is_constant (Neg e) = is_constant e"

fun linear :: "expr \<Rightarrow> bool" where
  "linear (Const c) = True"
| "linear (Var x) = True"
| "linear (Add e f) = (linear e \<and> linear f)"
| "linear (Sub e f) = (linear e \<and> linear f)"
| "linear (Mul e f) = ((is_constant e \<and> linear f) \<or> (linear e \<and> is_constant f))"
| "linear (Div e f) = (linear e \<and> is_constant f)"
| "linear (Neg e) = linear e"

fun linear_con :: "relexpr \<Rightarrow> bool" where
  "linear_con (Le e f) = (linear e \<and> linear f)"
| "linear_con (Eq e f) = (linear e \<and> linear f)"
| "linear_con (Ge e f) = (linear e \<and> linear f)"

text \<open>The variables an expression or a relation mentions.\<close>

fun occurs :: "var \<Rightarrow> expr \<Rightarrow> bool" where
  "occurs x (Const c) = False"
| "occurs x (Var z) = (x = z)"
| "occurs x (Add e f) = (occurs x e \<or> occurs x f)"
| "occurs x (Sub e f) = (occurs x e \<or> occurs x f)"
| "occurs x (Mul e f) = (occurs x e \<or> occurs x f)"
| "occurs x (Div e f) = (occurs x e \<or> occurs x f)"
| "occurs x (Neg e) = occurs x e"

fun occurs_con :: "var \<Rightarrow> relexpr \<Rightarrow> bool" where
  "occurs_con x (Le e f) = (occurs x e \<or> occurs x f)"
| "occurs_con x (Eq e f) = (occurs x e \<or> occurs x f)"
| "occurs_con x (Ge e f) = (occurs x e \<or> occurs x f)"

subsection \<open>Operators on expressions under construction\<close>

text \<open>
  Python evaluates the left operand, then the right one, then applies the operator; the
  first exception wins. Dividing a Pyomo expression by a native zero raises
  \<^verbatim>\<open>ZeroDivisionError\<close>.
\<close>

definition lift2 :: "('a \<Rightarrow> 'b \<Rightarrow> 'c) \<Rightarrow> error + 'a \<Rightarrow> error + 'b \<Rightarrow> error + 'c" where
  "lift2 f x y = bind x (\<lambda>a. bind y (\<lambda>b. Inr (f a b)))"

definition add_e :: "error + expr \<Rightarrow> error + expr \<Rightarrow> error + expr" where
  "add_e = lift2 Add"

definition sub_e :: "error + expr \<Rightarrow> error + expr \<Rightarrow> error + expr" where
  "sub_e = lift2 Sub"

definition mul_e :: "error + expr \<Rightarrow> error + expr \<Rightarrow> error + expr" where
  "mul_e = lift2 Mul"

definition neg_e :: "error + expr \<Rightarrow> error + expr" where
  "neg_e x = bind x (\<lambda>a. Inr (Neg a))"

definition div_e :: "error + expr \<Rightarrow> error + expr \<Rightarrow> error + expr" where
  "div_e x y = bind x (\<lambda>a. bind y (\<lambda>b.
     if b = Const 0 then Inl ZeroDivisionError else Inr (Div a b)))"

definition le_e :: "error + expr \<Rightarrow> error + expr \<Rightarrow> error + relexpr" where
  "le_e = lift2 Le"

definition eq_e :: "error + expr \<Rightarrow> error + expr \<Rightarrow> error + relexpr" where
  "eq_e = lift2 Eq"

definition ge_e :: "error + expr \<Rightarrow> error + expr \<Rightarrow> error + relexpr" where
  "ge_e = lift2 Ge"

definition num :: "real \<Rightarrow> error + expr" where
  "num c = Inr (Const c)"

text \<open>\<^verbatim>\<open>sum(... for v in model.V)\<close>: the accumulator starts at 0 and takes the items in order.\<close>

definition py_sum :: "(error + expr) list \<Rightarrow> error + expr" where
  "py_sum xs = foldl add_e (num 0) xs"

text \<open>\<^verbatim>\<open>max(opt_horizon)\<close> raises \<^verbatim>\<open>ValueError\<close> on the empty list.\<close>

fun py_max :: "int list \<Rightarrow> error + int" where
  "py_max [] = Inl ValueError"
| "py_max (x # xs) = Inr (fold max xs x)"

text \<open>A dictionary lookup \<^verbatim>\<open>d[k]\<close>, as a number and as a constant of an expression.\<close>

definition lookup :: "('k \<rightharpoonup> real) \<Rightarrow> 'k \<Rightarrow> error + real" where
  "lookup d k = (case d k of None \<Rightarrow> Inl KeyError | Some c \<Rightarrow> Inr c)"

definition param :: "('k \<rightharpoonup> real) \<Rightarrow> 'k \<Rightarrow> error + expr" where
  "param d k = bind (lookup d k) num"

subsection \<open>Index sets and indexed variables\<close>

definition model_V :: "params \<Rightarrow> ev list" where
  "model_V p = map fst (bcap p)"

definition model_T :: "params \<Rightarrow> int list" where
  "model_T p = butlast (opt_horizon p)"

definition model_Tp :: "params \<Rightarrow> int list" where
  "model_Tp p = opt_horizon p"

text \<open>
  \<^verbatim>\<open>model.E\<close>, \<^verbatim>\<open>model.s_ini\<close> and the other parameter attributes of the model are the
  argument dictionaries themselves; the rules below read them from \<open>p\<close>.
\<close>

definition model_E :: "params \<Rightarrow> ev \<rightharpoonup> real" where
  "model_E p = map_of (bcap p)"

text \<open>Indexing a variable outside its index set raises \<^verbatim>\<open>KeyError\<close>.\<close>

definition getitem :: "bool \<Rightarrow> var \<Rightarrow> error + expr" where
  "getitem valid x = (if valid then Inr (Var x) else Inl KeyError)"

definition model_p_ev :: "params \<Rightarrow> ev \<Rightarrow> int \<Rightarrow> error + expr" where
  "model_p_ev p v t = getitem (v \<in> set (model_V p) \<and> t \<in> set (model_T p)) (p_ev v t)"

definition model_p_ev_pos :: "params \<Rightarrow> ev \<Rightarrow> int \<Rightarrow> error + expr" where
  "model_p_ev_pos p v t = getitem (v \<in> set (model_V p) \<and> t \<in> set (model_T p)) (p_ev_pos v t)"

definition model_p_ev_neg :: "params \<Rightarrow> ev \<Rightarrow> int \<Rightarrow> error + expr" where
  "model_p_ev_neg p v t = getitem (v \<in> set (model_V p) \<and> t \<in> set (model_T p)) (p_ev_neg v t)"

definition model_x_ev :: "params \<Rightarrow> ev \<Rightarrow> int \<Rightarrow> error + expr" where
  "model_x_ev p v t = getitem (v \<in> set (model_V p) \<and> t \<in> set (model_T p)) (x_ev v t)"

definition model_s :: "params \<Rightarrow> ev \<Rightarrow> int \<Rightarrow> error + expr" where
  "model_s p v t = getitem (v \<in> set (model_V p) \<and> t \<in> set (model_Tp p)) (s_var v t)"

definition model_p_cc :: "params \<Rightarrow> int \<Rightarrow> error + expr" where
  "model_p_cc p t = getitem (t \<in> set (model_T p)) (p_cc t)"

definition model_eps :: "error + expr" where
  "model_eps = Inr (Var eps)"

definition model_y :: "params \<Rightarrow> ev \<Rightarrow> error + expr" where
  "model_y p v = getitem (v \<in> set (model_V p)) (y_var v)"

subsection \<open>The constraint rules and the objective\<close>

definition initialsoc :: "params \<Rightarrow> ev \<Rightarrow> error + relexpr" where
  "initialsoc p v = eq_e (model_s p v 0) (param (inisoc p) v)"

definition minimumsoc :: "params \<Rightarrow> ev \<Rightarrow> int \<Rightarrow> error + relexpr" where
  "minimumsoc p v t = le_e (param (minsoc p) v) (model_s p v t)"

definition maximumsoc :: "params \<Rightarrow> ev \<Rightarrow> int \<Rightarrow> error + relexpr" where
  "maximumsoc p v t = ge_e (param (maxsoc p) v) (model_s p v t)"

definition storageConservation :: "params \<Rightarrow> ev \<Rightarrow> int \<Rightarrow> error + relexpr" where
  "storageConservation p v t =
     eq_e (model_s p v (t + 1))
       (add_e (model_s p v t)
         (mul_e
           (div_e (sub_e (model_p_ev_pos p v t) (model_p_ev_neg p v t)) (param (model_E p) v))
           (num (opt_step p))))"

definition chargepowerlimit :: "params \<Rightarrow> ev \<Rightarrow> int \<Rightarrow> error + relexpr" where
  "chargepowerlimit p v t =
     eq_e (model_p_ev p v t) (sub_e (model_p_ev_pos p v t) (model_p_ev_neg p v t))"

definition combinatorics_ch :: "params \<Rightarrow> ev \<Rightarrow> int \<Rightarrow> error + relexpr" where
  "combinatorics_ch p v t =
     bind (lookup (deptime p) v) (\<lambda>t_dep.
       if real_of_int t \<ge> t_dep then eq_e (model_p_ev_pos p v t) (num 0)
       else le_e (model_p_ev_pos p v t) (mul_e (model_x_ev p v t) (param (pmax_pos p) v)))"

definition combinatorics_ds :: "params \<Rightarrow> ev \<Rightarrow> int \<Rightarrow> error + relexpr" where
  "combinatorics_ds p v t =
     bind (lookup (deptime p) v) (\<lambda>t_dep.
       if real_of_int t \<ge> t_dep then eq_e (model_p_ev_neg p v t) (num 0)
       else le_e (model_p_ev_neg p v t)
              (mul_e (sub_e (num 1) (model_x_ev p v t)) (param (pmax_neg p) v)))"

definition ccpower :: "params \<Rightarrow> int \<Rightarrow> error + relexpr" where
  "ccpower p t =
     eq_e (model_p_cc p t)
       (py_sum (map (\<lambda>v. sub_e (div_e (model_p_ev_pos p v t) (param (ch_eff p) v))
                              (mul_e (model_p_ev_neg p v t) (param (ds_eff p) v)))
                    (model_V p)))"

definition cluster_limit_violation :: "params \<Rightarrow> error + relexpr" where
  "cluster_limit_violation p = le_e model_eps (num (tolerance p))"

definition cluster_upper_limit :: "params \<Rightarrow> int \<Rightarrow> error + relexpr" where
  "cluster_upper_limit p t = le_e (model_p_cc p t) (add_e model_eps (param (upperlimit p) t))"

definition cluster_lower_limit :: "params \<Rightarrow> int \<Rightarrow> error + relexpr" where
  "cluster_lower_limit p t =
     le_e (add_e (neg_e model_eps) (param (lowerlimit p) t)) (model_p_cc p t)"

definition individual_pos_deviation :: "params \<Rightarrow> ev \<Rightarrow> error + relexpr" where
  "individual_pos_deviation p v =
     le_e (sub_e (param (tarsoc p) v)
                 (bind (py_max (opt_horizon p)) (\<lambda>mx. model_s p v mx)))
          (model_y p v)"

definition individual_neg_deviation :: "params \<Rightarrow> ev \<Rightarrow> error + relexpr" where
  "individual_neg_deviation p v =
     le_e (neg_e (model_y p v))
          (sub_e (param (tarsoc p) v)
                 (bind (py_max (opt_horizon p)) (\<lambda>mx. model_s p v mx)))"

definition obj_rule :: "params \<Rightarrow> error + expr" where
  "obj_rule p =
     add_e
       (mul_e (num (rho_y p))
         (py_sum (map (\<lambda>v. div_e (mul_e (model_y p v) (param (model_E p) v)) (num 3600))
                      (model_V p))))
       (mul_e (num (rho_eps p)) model_eps)"

subsection \<open>Building the model\<close>

text \<open>
  \<^verbatim>\<open>Constraint(index, rule=r)\<close> calls the rule at every index in order and stops at the
  first exception. A Pyomo \<^verbatim>\<open>Set\<close> drops repeated elements of its initialiser; calling
  a rule twice at the same index gives the same relation and the same first exception.
\<close>

fun Constraint :: "'i list \<Rightarrow> ('i \<Rightarrow> error + relexpr) \<Rightarrow> error + relexpr list" where
  "Constraint [] r = Inr []"
| "Constraint (i # is) r = bind (r i) (\<lambda>c. bind (Constraint is r) (\<lambda>cs. Inr (c # cs)))"

definition Constraint2 ::
  "ev list \<Rightarrow> int list \<Rightarrow> (ev \<Rightarrow> int \<Rightarrow> error + relexpr) \<Rightarrow> error + relexpr list" where
  "Constraint2 vs ts r = Constraint (List.product vs ts) (\<lambda>(v, t). r v t)"

datatype sense = minimize | maximize

record model =
  model_vars :: "var list"
  model_inisoc :: "relexpr list"
  model_minsoc_con :: "relexpr list"
  model_maxsoc_con :: "relexpr list"
  model_socconst :: "relexpr list"
  model_chrpowconst :: "relexpr list"
  model_combconst1 :: "relexpr list"
  model_combconst2 :: "relexpr list"
  model_ccpowtotal :: "relexpr list"
  model_viol_clust :: "relexpr list"
  model_ccpowcap_pos :: "relexpr list"
  model_ccpowcap_neg :: "relexpr list"
  model_indev_pos :: "relexpr list"
  model_indev_neg :: "relexpr list"
  model_obj :: expr
  model_obj_sense :: sense

definition declare_vars :: "params \<Rightarrow> var list" where
  "declare_vars p =
     map (\<lambda>(v, t). p_ev v t) (List.product (model_V p) (model_T p))
     @ map (\<lambda>(v, t). p_ev_pos v t) (List.product (model_V p) (model_T p))
     @ map (\<lambda>(v, t). p_ev_neg v t) (List.product (model_V p) (model_T p))
     @ map (\<lambda>(v, t). x_ev v t) (List.product (model_V p) (model_T p))
     @ map (\<lambda>(v, t). s_var v t) (List.product (model_V p) (model_Tp p))
     @ map p_cc (model_T p)
     @ [eps]
     @ map y_var (model_V p)"

definition build_model :: "params \<Rightarrow> error + model" where
  "build_model p =
     bind (Constraint (model_V p) (initialsoc p)) (\<lambda>c1.
     bind (Constraint2 (model_V p) (model_T p) (minimumsoc p)) (\<lambda>c2.
     bind (Constraint2 (model_V p) (model_T p) (maximumsoc p)) (\<lambda>c3.
     bind (Constraint2 (model_V p) (model_T p) (storageConservation p)) (\<lambda>c4.
     bind (Constraint2 (model_V p) (model_T p) (chargepowerlimit p)) (\<lambda>c5.
     bind (Constraint2 (model_V p) (model_T p) (combinatorics_ch p)) (\<lambda>c6.
     bind (Constraint2 (model_V p) (model_T p) (combinatorics_ds p)) (\<lambda>c7.
     bind (Constraint (model_T p) (ccpower p)) (\<lambda>c8.
     bind (cluster_limit_violation p) (\<lambda>c9.
     bind (Constraint (model_T p) (cluster_upper_limit p)) (\<lambda>c10.
     bind (Constraint (model_T p) (cluster_lower_limit p)) (\<lambda>c11.
     bind (Constraint (model_V p) (individual_pos_deviation p)) (\<lambda>c12.
     bind (Constraint (model_V p) (individual_neg_deviation p)) (\<lambda>c13.
     bind (obj_rule p) (\<lambda>ob.
     Inr \<lparr> model_vars = declare_vars p,
           model_inisoc = c1, model_minsoc_con = c2, model_maxsoc_con = c3,
           model_socconst = c4, model_chrpowconst = c5, model_combconst1 = c6,
           model_combconst2 = c7, model_ccpowtotal = c8, model_viol_clust = [c9],
           model_ccpowcap_pos = c10, model_ccpowcap_neg = c11, model_indev_pos = c12,
           model_indev_neg = c13, model_obj = ob,
           model_obj_sense = minimize \<rparr>))))))))))))))"

definition constraints :: "model \<Rightarrow> relexpr list" where
  "constraints m =
     model_inisoc m @ model_minsoc_con m @ model_maxsoc_con m @ model_socconst m
     @ model_chrpowconst m @ model_combconst1 m @ model_combconst2 m @ model_ccpowtotal m
     @ model_viol_clust m @ model_ccpowcap_pos m @ model_ccpowcap_neg m
     @ model_indev_pos m @ model_indev_neg m"

text \<open>An assignment is feasible when every variable is in its domain and every constraint holds.\<close>

definition feasible :: "model \<Rightarrow> (var \<Rightarrow> real) \<Rightarrow> bool" where
  "feasible m a =
     (list_all (\<lambda>x. in_domain (domain_of x) (a x)) (model_vars m)
      \<and> list_all (holds a) (constraints m))"

subsection \<open>Solving and saving the results\<close>

text \<open>
  \<^verbatim>\<open>solver.solve(model)\<close> is the external solver: it raises, or it returns a result object
  with a termination condition; \<open>solution\<close> is the assignment it loaded into the
  variables of the model, \<open>None\<close> when it loaded none.
\<close>

datatype TerminationCondition = optimal | infeasible | unbounded | other_termination

record results =
  termination_condition :: TerminationCondition
  solution :: "(var \<Rightarrow> real) option"

type_synonym solver = "model \<Rightarrow> error + results"

text \<open>\<^verbatim>\<open>e()\<close>: the value of a variable, \<^verbatim>\<open>None\<close> when the variable holds no value.\<close>

definition call :: "(var \<Rightarrow> real) option \<Rightarrow> expr \<Rightarrow> real option" where
  "call sol e = map_option (\<lambda>a. evaluate a e) sol"

type_synonym series = "int \<rightharpoonup> real option"

fun save_steps ::
  "params \<Rightarrow> (var \<Rightarrow> real) option \<Rightarrow> ev \<Rightarrow> int list \<Rightarrow> series \<Rightarrow> series
     \<Rightarrow> error + (series \<times> series)" where
  "save_steps p sol v [] pv sv = Inr (pv, sv)"
| "save_steps p sol v (t # ts) pv sv =
     bind (py_max (opt_horizon p)) (\<lambda>mx.
     bind (if t < mx then bind (model_p_ev p v t) (\<lambda>e. Inr (pv(t \<mapsto> call sol e)))
           else Inr pv) (\<lambda>pv'.
     bind (model_s p v t) (\<lambda>e. save_steps p sol v ts pv' (sv(t \<mapsto> call sol e)))))"

fun save_results ::
  "params \<Rightarrow> (var \<Rightarrow> real) option \<Rightarrow> ev list \<Rightarrow> (ev \<rightharpoonup> series) \<Rightarrow> (ev \<rightharpoonup> series)
     \<Rightarrow> error + ((ev \<rightharpoonup> series) \<times> (ev \<rightharpoonup> series))" where
  "save_results p sol [] p_schedule s_schedule = Inr (p_schedule, s_schedule)"
| "save_results p sol (v # vs) p_schedule s_schedule =
     bind (save_steps p sol v (opt_horizon p) Map.empty Map.empty) (\<lambda>(pv, sv).
       save_results p sol vs (p_schedule(v \<mapsto> pv)) (s_schedule(v \<mapsto> sv)))"

definition reschedule ::
  "solver \<Rightarrow> params \<Rightarrow> error + ((ev \<rightharpoonup> series) \<times> (ev \<rightharpoonup> series))" where
  "reschedule solver p =
     bind (build_model p) (\<lambda>m.
     bind (solver m) (\<lambda>result.
       save_results p (solution result) (model_V p) Map.empty Map.empty))"

subsection \<open>Example inputs\<close>

text \<open>
  A cluster of two vehicles over the horizon 0, 1, 2. EV1 stays beyond the horizon and
  charges 5.5 kW in both flow steps; EV2 has departure index 0. The cluster limit of
  10 kW is exceeded by 1 kW in both steps, which the tolerance of 1 kW allows.
\<close>

definition p0 :: params where
  "p0 = \<lparr> opt_step = 300, opt_horizon = [0, 1, 2],
          upperlimit = [0 \<mapsto> 10, 1 \<mapsto> 10], lowerlimit = [0 \<mapsto> 0, 1 \<mapsto> 0],
          tolerance = 1, bcap = [(''EV1'', 6600), (''EV2'', 6600)],
          inisoc = [''EV1'' \<mapsto> 0, ''EV2'' \<mapsto> 1 / 2],
          tarsoc = [''EV1'' \<mapsto> 1, ''EV2'' \<mapsto> 1 / 2],
          minsoc = [''EV1'' \<mapsto> 0, ''EV2'' \<mapsto> 0],
          maxsoc = [''EV1'' \<mapsto> 1 / 4, ''EV2'' \<mapsto> 1],
          ch_eff = [''EV1'' \<mapsto> 1 / 2, ''EV2'' \<mapsto> 1 / 2],
          ds_eff = [''EV1'' \<mapsto> 1 / 2, ''EV2'' \<mapsto> 1 / 2],
          pmax_pos = [''EV1'' \<mapsto> 11, ''EV2'' \<mapsto> 11],
          pmax_neg = [''EV1'' \<mapsto> 11, ''EV2'' \<mapsto> 11],
          deptime = [''EV1'' \<mapsto> 2, ''EV2'' \<mapsto> 0], rho_y = 1, rho_eps = 1 \<rparr>"

definition m0 :: model where
  "m0 = projr (build_model p0)"

definition a0 :: "var \<Rightarrow> real" where
  "a0 x = (case x of
      p_ev v t \<Rightarrow> if v = ''EV1'' then 11 / 2 else 0
    | p_ev_pos v t \<Rightarrow> if v = ''EV1'' then 11 / 2 else 0
    | p_ev_neg v t \<Rightarrow> 0
    | x_ev v t \<Rightarrow> if v = ''EV1'' then 1 else 0
    | s_var v t \<Rightarrow> if v = ''EV1'' then real_of_int t / 4 else 1 / 2
    | p_cc t \<Rightarrow> 11
    | eps \<Rightarrow> 1
    | y_var v \<Rightarrow> if v = ''EV1'' then 1 / 2 else 0)"

text \<open>A solver that finds \<open>a0\<close>, and one that reports infeasibility and loads nothing.\<close>

definition solver0 :: solver where
  "solver0 m = Inr \<lparr> termination_condition = optimal, solution = Some a0 \<rparr>"

definition solver_infeasible :: solver where
  "solver_infeasible m = Inr \<lparr> termination_condition = infeasible, solution = None \<rparr>"

text \<open>
  The same cluster with a limit entry for a step outside the horizon and without the
  maximum charge and discharge power of EV2.
\<close>

definition p_mismatch :: params where
  "p_mismatch = p0 \<lparr> upperlimit := [0 \<mapsto> 10, 1 \<mapsto> 10, 5 \<mapsto> 10],
                     pmax_pos := [''EV1'' \<mapsto> 11], pmax_neg := [''EV1'' \<mapsto> 11] \<rparr>"



text \<open>
  The cluster of \<open>p0\<close> where EV2 has no initial SOC, where the upper limit lacks step 1,
  and where the horizon is 1, 2, 3.
\<close>

definition p_missing :: params where
  "p_missing = p0 \<lparr> inisoc := [''EV1'' \<mapsto> 0] \<rparr>"

definition p_short :: params where
  "p_short = p0 \<lparr> upperlimit := [0 \<mapsto> 10] \<rparr>"

definition p_shifted :: params where
  "p_shifted = p0 \<lparr> opt_horizon := [1, 2, 3],
                    upperlimit := [1 \<mapsto> 10, 2 \<mapsto> 10], lowerlimit := [1 \<mapsto> 0, 2 \<mapsto> 0] \<rparr>"

text \<open>The cluster of \<open>p0\<close> where EV1 has capacity 0 and the upper limit lacks step 1.\<close>

definition p_zero :: params where
  "p_zero = p0 \<lparr> bcap := [(''EV1'', 0), (''EV2'', 6600)], upperlimit := [0 \<mapsto> 10] \<rparr>"

text \<open>A solver whose call raises.\<close>

definition solver_unavailable :: solver where
  "solver_unavailable m = Inl SolverError"

section \<open>Basic facts about the embedding\<close>

lemma bind_Inl: "bind (Inl e) f = Inl e" by (simp add: bind_def)
lemma bind_Inr: "bind (Inr x) f = f x" by (simp add: bind_def)

lemma bind_Inr_iff: "bind m f = Inr y \<longleftrightarrow> (\<exists>x. m = Inr x \<and> f x = Inr y)"
  by (cases m) (simp_all add: bind_def)

lemma lift2_Inr_iff: "lift2 f x y = Inr z \<longleftrightarrow> (\<exists>a b. x = Inr a \<and> y = Inr b \<and> z = f a b)"
  by (auto simp: lift2_def bind_Inr_iff)

lemma add_e_Inr_iff: "add_e x y = Inr z \<longleftrightarrow> (\<exists>a b. x = Inr a \<and> y = Inr b \<and> z = Add a b)"
  by (simp add: add_e_def lift2_Inr_iff)
lemma sub_e_Inr_iff: "sub_e x y = Inr z \<longleftrightarrow> (\<exists>a b. x = Inr a \<and> y = Inr b \<and> z = Sub a b)"
  by (simp add: sub_e_def lift2_Inr_iff)
lemma mul_e_Inr_iff: "mul_e x y = Inr z \<longleftrightarrow> (\<exists>a b. x = Inr a \<and> y = Inr b \<and> z = Mul a b)"
  by (simp add: mul_e_def lift2_Inr_iff)
lemma div_e_Inr_iff:
  "div_e x y = Inr z \<longleftrightarrow> (\<exists>a b. x = Inr a \<and> y = Inr b \<and> b \<noteq> Const 0 \<and> z = Div a b)"
  by (auto simp: div_e_def bind_Inr_iff)
lemma neg_e_Inr_iff: "neg_e x = Inr z \<longleftrightarrow> (\<exists>a. x = Inr a \<and> z = Neg a)"
  by (auto simp: neg_e_def bind_Inr_iff)
lemma le_e_Inr_iff: "le_e x y = Inr z \<longleftrightarrow> (\<exists>a b. x = Inr a \<and> y = Inr b \<and> z = Le a b)"
  by (simp add: le_e_def lift2_Inr_iff)
lemma eq_e_Inr_iff: "eq_e x y = Inr z \<longleftrightarrow> (\<exists>a b. x = Inr a \<and> y = Inr b \<and> z = Eq a b)"
  by (simp add: eq_e_def lift2_Inr_iff)
lemma ge_e_Inr_iff: "ge_e x y = Inr z \<longleftrightarrow> (\<exists>a b. x = Inr a \<and> y = Inr b \<and> z = Ge a b)"
  by (simp add: ge_e_def lift2_Inr_iff)
lemma num_Inr_iff: "num c = Inr z \<longleftrightarrow> z = Const c"
  by (auto simp: num_def)
lemma lookup_Inr_iff: "lookup d k = Inr c \<longleftrightarrow> d k = Some c"
  by (simp add: lookup_def split: option.splits)
lemma param_Inr_iff: "param d k = Inr z \<longleftrightarrow> (\<exists>c. d k = Some c \<and> z = Const c)"
  by (auto simp: param_def bind_Inr_iff lookup_Inr_iff num_Inr_iff)
lemma getitem_Inr_iff: "getitem ok x = Inr z \<longleftrightarrow> ok \<and> z = Var x"
  by (auto simp: getitem_def)
lemma model_eps_Inr_iff: "model_eps = Inr z \<longleftrightarrow> z = Var eps"
  by (auto simp: model_eps_def)

lemmas Inr_iffs = bind_Inr_iff add_e_Inr_iff sub_e_Inr_iff mul_e_Inr_iff div_e_Inr_iff
  neg_e_Inr_iff le_e_Inr_iff eq_e_Inr_iff ge_e_Inr_iff num_Inr_iff lookup_Inr_iff
  param_Inr_iff getitem_Inr_iff model_eps_Inr_iff

lemma Constraint_member:
  "Constraint is r = Inr cs \<Longrightarrow> i \<in> set is \<Longrightarrow> \<exists>c. r i = Inr c \<and> c \<in> set cs"
  by (induction "is" arbitrary: cs) (auto simp: bind_Inr_iff)

lemma Constraint_origin:
  "Constraint is r = Inr cs \<Longrightarrow> c \<in> set cs \<Longrightarrow> \<exists>i\<in>set is. r i = Inr c"
  by (induction "is" arbitrary: cs) (auto simp: bind_Inr_iff)

lemma Constraint2_member:
  "Constraint2 vs ts r = Inr cs \<Longrightarrow> v \<in> set vs \<Longrightarrow> t \<in> set ts
     \<Longrightarrow> \<exists>c. r v t = Inr c \<and> c \<in> set cs"
  unfolding Constraint2_def
  using Constraint_member [of "List.product vs ts" "\<lambda>(v, t). r v t" cs "(v, t)"] by simp

lemma Constraint2_origin:
  "Constraint2 vs ts r = Inr cs \<Longrightarrow> c \<in> set cs
     \<Longrightarrow> \<exists>v\<in>set vs. \<exists>t\<in>set ts. r v t = Inr c"
  unfolding Constraint2_def
  using Constraint_origin [of "List.product vs ts" "\<lambda>(v, t). r v t" cs c] by auto

lemma build_model_parts:
  assumes "build_model p = Inr m"
  shows "Constraint (model_V p) (initialsoc p) = Inr (model_inisoc m)"
    and "Constraint2 (model_V p) (model_T p) (minimumsoc p) = Inr (model_minsoc_con m)"
    and "Constraint2 (model_V p) (model_T p) (maximumsoc p) = Inr (model_maxsoc_con m)"
    and "Constraint2 (model_V p) (model_T p) (storageConservation p) = Inr (model_socconst m)"
    and "Constraint2 (model_V p) (model_T p) (chargepowerlimit p) = Inr (model_chrpowconst m)"
    and "Constraint2 (model_V p) (model_T p) (combinatorics_ch p) = Inr (model_combconst1 m)"
    and "Constraint2 (model_V p) (model_T p) (combinatorics_ds p) = Inr (model_combconst2 m)"
    and "Constraint (model_T p) (ccpower p) = Inr (model_ccpowtotal m)"
    and "\<exists>c. cluster_limit_violation p = Inr c \<and> model_viol_clust m = [c]"
    and "Constraint (model_T p) (cluster_upper_limit p) = Inr (model_ccpowcap_pos m)"
    and "Constraint (model_T p) (cluster_lower_limit p) = Inr (model_ccpowcap_neg m)"
    and "Constraint (model_V p) (individual_pos_deviation p) = Inr (model_indev_pos m)"
    and "Constraint (model_V p) (individual_neg_deviation p) = Inr (model_indev_neg m)"
    and "obj_rule p = Inr (model_obj m)"
    and "model_vars m = declare_vars p"
    and "model_obj_sense m = minimize"
  using assms unfolding build_model_def bind_Inr_iff by auto

lemma feasible_holds:
  "feasible m a \<Longrightarrow> c \<in> set (constraints m) \<Longrightarrow> holds a c"
  by (simp add: feasible_def list_all_iff)

lemma feasible_domain:
  "feasible m a \<Longrightarrow> x \<in> set (model_vars m) \<Longrightarrow> in_domain (domain_of x) (a x)"
  by (simp add: feasible_def list_all_iff)

subsection \<open>What each constraint family says about a feasible assignment\<close>

lemma in_constraints:
  "c \<in> set (constraints m) \<longleftrightarrow>
     c \<in> set (model_inisoc m) \<or> c \<in> set (model_minsoc_con m) \<or> c \<in> set (model_maxsoc_con m)
     \<or> c \<in> set (model_socconst m) \<or> c \<in> set (model_chrpowconst m)
     \<or> c \<in> set (model_combconst1 m) \<or> c \<in> set (model_combconst2 m)
     \<or> c \<in> set (model_ccpowtotal m) \<or> c \<in> set (model_viol_clust m)
     \<or> c \<in> set (model_ccpowcap_pos m) \<or> c \<in> set (model_ccpowcap_neg m)
     \<or> c \<in> set (model_indev_pos m) \<or> c \<in> set (model_indev_neg m)"
  by (auto simp: constraints_def)

lemma in_declare_vars:
  "x \<in> set (declare_vars p) \<longleftrightarrow>
     (case x of
        p_ev v t \<Rightarrow> v \<in> set (model_V p) \<and> t \<in> set (model_T p)
      | p_ev_pos v t \<Rightarrow> v \<in> set (model_V p) \<and> t \<in> set (model_T p)
      | p_ev_neg v t \<Rightarrow> v \<in> set (model_V p) \<and> t \<in> set (model_T p)
      | x_ev v t \<Rightarrow> v \<in> set (model_V p) \<and> t \<in> set (model_T p)
      | s_var v t \<Rightarrow> v \<in> set (model_V p) \<and> t \<in> set (model_Tp p)
      | p_cc t \<Rightarrow> t \<in> set (model_T p)
      | eps \<Rightarrow> True
      | y_var v \<Rightarrow> v \<in> set (model_V p))"
  by (cases x) (auto simp: declare_vars_def)

lemma domains_sem:
  assumes "build_model p = Inr m" and "feasible m a"
  shows "v \<in> set (model_V p) \<Longrightarrow> t \<in> set (model_T p) \<Longrightarrow> 0 \<le> a (p_ev_pos v t)"
    and "v \<in> set (model_V p) \<Longrightarrow> t \<in> set (model_T p) \<Longrightarrow> 0 \<le> a (p_ev_neg v t)"
    and "v \<in> set (model_V p) \<Longrightarrow> t \<in> set (model_T p)
           \<Longrightarrow> a (x_ev v t) = 0 \<or> a (x_ev v t) = 1"
    and "v \<in> set (model_V p) \<Longrightarrow> t \<in> set (model_Tp p) \<Longrightarrow> 0 \<le> a (s_var v t)"
    and "0 \<le> a eps"
    and "v \<in> set (model_V p) \<Longrightarrow> 0 \<le> a (y_var v)"
  using feasible_domain [OF assms(2), of "p_ev_pos v t"]
    feasible_domain [OF assms(2), of "p_ev_neg v t"]
    feasible_domain [OF assms(2), of "x_ev v t"]
    feasible_domain [OF assms(2), of "s_var v t"]
    feasible_domain [OF assms(2), of eps]
    feasible_domain [OF assms(2), of "y_var v"]
  by (simp_all add: build_model_parts(15) [OF assms(1)] in_declare_vars)

lemma T_subset_Tp: "t \<in> set (model_T p) \<Longrightarrow> t \<in> set (model_Tp p)"
  by (auto simp: model_T_def model_Tp_def dest: in_set_butlastD)

lemma initialsoc_sem:
  assumes "build_model p = Inr m" and "feasible m a" and "v \<in> set (model_V p)"
  shows "0 \<in> set (model_Tp p) \<and> (\<exists>c. inisoc p v = Some c \<and> a (s_var v 0) = c)"
proof -
  obtain c where c: "initialsoc p v = Inr c" "c \<in> set (model_inisoc m)"
    using Constraint_member [OF build_model_parts(1) [OF assms(1)] assms(3)] by blast
  from c(2) have "holds a c"
    using feasible_holds [OF assms(2)] by (simp add: in_constraints)
  with c(1) show ?thesis
    by (auto simp: initialsoc_def model_s_def Inr_iffs)
qed



lemma storageConservation_built:
  assumes "build_model p = Inr m" and "v \<in> set (model_V p)" and "t \<in> set (model_T p)"
  shows "t + 1 \<in> set (model_Tp p) \<and> (\<exists>cap. model_E p v = Some cap \<and> cap \<noteq> 0)"
proof -
  obtain c where c: "storageConservation p v t = Inr c"
    using Constraint2_member [OF build_model_parts(4) [OF assms(1)] assms(2,3)] by blast
  then show ?thesis
    by (auto simp: storageConservation_def model_s_def Inr_iffs)
qed

lemma storageConservation_sem:
  assumes "build_model p = Inr m" and "feasible m a"
    and "v \<in> set (model_V p)" and "t \<in> set (model_T p)"
  shows "\<exists>cap. model_E p v = Some cap \<and> cap \<noteq> 0
           \<and> a (s_var v (t + 1))
               = a (s_var v t) + (a (p_ev_pos v t) - a (p_ev_neg v t)) / cap * opt_step p"
proof -
  obtain c where c: "storageConservation p v t = Inr c" "c \<in> set (model_socconst m)"
    using Constraint2_member [OF build_model_parts(4) [OF assms(1)] assms(3,4)] by blast
  from c(2) have "holds a c"
    using feasible_holds [OF assms(2)] by (simp add: in_constraints)
  with c(1) show ?thesis
    by (auto simp: storageConservation_def model_s_def model_p_ev_pos_def model_p_ev_neg_def
        Inr_iffs)
qed

lemma chargepowerlimit_sem:
  assumes "build_model p = Inr m" and "feasible m a"
    and "v \<in> set (model_V p)" and "t \<in> set (model_T p)"
  shows "a (p_ev v t) = a (p_ev_pos v t) - a (p_ev_neg v t)"
proof -
  obtain c where c: "chargepowerlimit p v t = Inr c" "c \<in> set (model_chrpowconst m)"
    using Constraint2_member [OF build_model_parts(5) [OF assms(1)] assms(3,4)] by blast
  from c(2) have "holds a c"
    using feasible_holds [OF assms(2)] by (simp add: in_constraints)
  with c(1) show ?thesis
    by (auto simp: chargepowerlimit_def model_p_ev_def model_p_ev_pos_def model_p_ev_neg_def
        Inr_iffs)
qed

lemma combinatorics_ch_sem:
  assumes "build_model p = Inr m" and "feasible m a"
    and "v \<in> set (model_V p)" and "t \<in> set (model_T p)"
  shows "\<exists>t_dep. deptime p v = Some t_dep
           \<and> (if real_of_int t \<ge> t_dep then a (p_ev_pos v t) = 0
              else \<exists>pmax. pmax_pos p v = Some pmax \<and> a (p_ev_pos v t) \<le> a (x_ev v t) * pmax)"
proof -
  obtain c where c: "combinatorics_ch p v t = Inr c" "c \<in> set (model_combconst1 m)"
    using Constraint2_member [OF build_model_parts(6) [OF assms(1)] assms(3,4)] by blast
  from c(2) have "holds a c"
    using feasible_holds [OF assms(2)] by (simp add: in_constraints)
  with c(1) show ?thesis
    by (auto simp: combinatorics_ch_def model_p_ev_pos_def model_x_ev_def Inr_iffs
        split: if_splits)
qed

lemma combinatorics_ds_sem:
  assumes "build_model p = Inr m" and "feasible m a"
    and "v \<in> set (model_V p)" and "t \<in> set (model_T p)"
  shows "\<exists>t_dep. deptime p v = Some t_dep
           \<and> (if real_of_int t \<ge> t_dep then a (p_ev_neg v t) = 0
              else \<exists>pmax. pmax_neg p v = Some pmax
                     \<and> a (p_ev_neg v t) \<le> (1 - a (x_ev v t)) * pmax)"
proof -
  obtain c where c: "combinatorics_ds p v t = Inr c" "c \<in> set (model_combconst2 m)"
    using Constraint2_member [OF build_model_parts(7) [OF assms(1)] assms(3,4)] by blast
  from c(2) have "holds a c"
    using feasible_holds [OF assms(2)] by (simp add: in_constraints)
  with c(1) show ?thesis
    by (auto simp: combinatorics_ds_def model_p_ev_neg_def model_x_ev_def Inr_iffs
        split: if_splits)
qed

lemma foldl_add_e_Inr:
  "foldl add_e acc (map f vs) = Inr e \<Longrightarrow>
     (\<forall>v\<in>set vs. \<exists>c. f v = Inr c)
     \<and> (\<exists>e0. acc = Inr e0
          \<and> evaluate a e = evaluate a e0 + (\<Sum>v\<leftarrow>vs. evaluate a (projr (f v)))
          \<and> (linear e0 \<and> (\<forall>v\<in>set vs. linear (projr (f v))) \<longrightarrow> linear e))"
proof (induction vs arbitrary: acc)
  case Nil
  then show ?case by simp
next
  case (Cons v vs)
  from Cons.prems have *: "foldl add_e (add_e acc (f v)) (map f vs) = Inr e" by simp
  from Cons.IH [OF *] obtain e1 where
    all: "\<forall>w\<in>set vs. \<exists>c. f w = Inr c" and
    e1: "add_e acc (f v) = Inr e1"
        "evaluate a e = evaluate a e1 + (\<Sum>w\<leftarrow>vs. evaluate a (projr (f w)))"
        "linear e1 \<and> (\<forall>w\<in>set vs. linear (projr (f w))) \<longrightarrow> linear e"
    by blast
  from e1(1) obtain e0 c where ec: "acc = Inr e0" "f v = Inr c" "e1 = Add e0 c"
    by (auto simp: add_e_Inr_iff)
  show ?case using all e1(2,3) ec by (auto simp: algebra_simps)
qed

lemma py_sum_Inr:
  assumes "py_sum (map f vs) = Inr e"
  shows "\<forall>v\<in>set vs. \<exists>c. f v = Inr c"
    and "evaluate a e = (\<Sum>v\<leftarrow>vs. evaluate a (projr (f v)))"
    and "(\<forall>v\<in>set vs. linear (projr (f v))) \<Longrightarrow> linear e"
  using foldl_add_e_Inr [OF assms [unfolded py_sum_def], of a]
  by (auto simp: num_def)

lemma ccpower_sem:
  assumes "build_model p = Inr m" and "feasible m a" and "t \<in> set (model_T p)"
  shows "(\<forall>v\<in>set (model_V p). \<exists>ce de. ch_eff p v = Some ce \<and> ce \<noteq> 0 \<and> ds_eff p v = Some de)
         \<and> a (p_cc t)
             = (\<Sum>v\<leftarrow>model_V p. a (p_ev_pos v t) / the (ch_eff p v)
                                  - a (p_ev_neg v t) * the (ds_eff p v))"
proof -
  let ?f = "\<lambda>v. sub_e (div_e (model_p_ev_pos p v t) (param (ch_eff p) v))
                          (mul_e (model_p_ev_neg p v t) (param (ds_eff p) v))"
  obtain c where c: "ccpower p t = Inr c" "c \<in> set (model_ccpowtotal m)"
    using Constraint_member [OF build_model_parts(8) [OF assms(1)] assms(3)] by blast
  from c(2) have h: "holds a c"
    using feasible_holds [OF assms(2)] by (simp add: in_constraints)
  from c(1) obtain e where e: "py_sum (map ?f (model_V p)) = Inr e" "c = Eq (Var (p_cc t)) e"
    by (auto simp: ccpower_def model_p_cc_def Inr_iffs)
  have item: "\<exists>ce de. ch_eff p v = Some ce \<and> ce \<noteq> 0 \<and> ds_eff p v = Some de
                \<and> ?f v = Inr (Sub (Div (Var (p_ev_pos v t)) (Const ce))
                                  (Mul (Var (p_ev_neg v t)) (Const de)))"
    if "v \<in> set (model_V p)" for v
    using py_sum_Inr(1) [OF e(1)] that
    by (auto simp: model_p_ev_pos_def model_p_ev_neg_def Inr_iffs)
  have "evaluate a (projr (?f v))
          = a (p_ev_pos v t) / the (ch_eff p v) - a (p_ev_neg v t) * the (ds_eff p v)"
    if "v \<in> set (model_V p)" for v
    using item [OF that] by auto
  then have "(\<Sum>v\<leftarrow>model_V p. evaluate a (projr (?f v)))
          = (\<Sum>v\<leftarrow>model_V p. a (p_ev_pos v t) / the (ch_eff p v)
                                  - a (p_ev_neg v t) * the (ds_eff p v))"
    by (intro arg_cong [where f = sum_list] map_cong) simp_all
  with h e(2) py_sum_Inr(2) [OF e(1), of a] have "a (p_cc t)
             = (\<Sum>v\<leftarrow>model_V p. a (p_ev_pos v t) / the (ch_eff p v)
                                  - a (p_ev_neg v t) * the (ds_eff p v))"
    by simp
  moreover have "\<forall>v\<in>set (model_V p). \<exists>ce de. ch_eff p v = Some ce \<and> ce \<noteq> 0 \<and> ds_eff p v = Some de"
    using item by blast
  ultimately show ?thesis by blast
qed

lemma cluster_limit_violation_sem:
  assumes "build_model p = Inr m" and "feasible m a"
  shows "a eps \<le> tolerance p"
proof -
  obtain c where c: "cluster_limit_violation p = Inr c" "model_viol_clust m = [c]"
    using build_model_parts(9) [OF assms(1)] by blast
  from c(2) have "holds a c"
    using feasible_holds [OF assms(2)] by (simp add: in_constraints)
  with c(1) show ?thesis
    by (auto simp: cluster_limit_violation_def Inr_iffs)
qed

lemma cluster_upper_limit_sem:
  assumes "build_model p = Inr m" and "feasible m a" and "t \<in> set (model_T p)"
  shows "\<exists>u. upperlimit p t = Some u \<and> a (p_cc t) \<le> a eps + u"
proof -
  obtain c where c: "cluster_upper_limit p t = Inr c" "c \<in> set (model_ccpowcap_pos m)"
    using Constraint_member [OF build_model_parts(10) [OF assms(1)] assms(3)] by blast
  from c(2) have "holds a c"
    using feasible_holds [OF assms(2)] by (simp add: in_constraints)
  with c(1) show ?thesis
    by (auto simp: cluster_upper_limit_def model_p_cc_def Inr_iffs)
qed

lemma cluster_lower_limit_sem:
  assumes "build_model p = Inr m" and "feasible m a" and "t \<in> set (model_T p)"
  shows "\<exists>l. lowerlimit p t = Some l \<and> - a eps + l \<le> a (p_cc t)"
proof -
  obtain c where c: "cluster_lower_limit p t = Inr c" "c \<in> set (model_ccpowcap_neg m)"
    using Constraint_member [OF build_model_parts(11) [OF assms(1)] assms(3)] by blast
  from c(2) have "holds a c"
    using feasible_holds [OF assms(2)] by (simp add: in_constraints)
  with c(1) show ?thesis
    by (auto simp: cluster_lower_limit_def model_p_cc_def Inr_iffs)
qed

lemma individual_pos_deviation_sem:
  assumes "build_model p = Inr m" and "feasible m a" and "v \<in> set (model_V p)"
  shows "\<exists>tar mx. tarsoc p v = Some tar \<and> py_max (opt_horizon p) = Inr mx
           \<and> tar - a (s_var v mx) \<le> a (y_var v)"
proof -
  obtain c where c: "individual_pos_deviation p v = Inr c" "c \<in> set (model_indev_pos m)"
    using Constraint_member [OF build_model_parts(12) [OF assms(1)] assms(3)] by blast
  from c(2) have "holds a c"
    using feasible_holds [OF assms(2)] by (simp add: in_constraints)
  with c(1) show ?thesis
    by (auto simp: individual_pos_deviation_def model_s_def model_y_def Inr_iffs)
qed

lemma individual_neg_deviation_sem:
  assumes "build_model p = Inr m" and "feasible m a" and "v \<in> set (model_V p)"
  shows "\<exists>tar mx. tarsoc p v = Some tar \<and> py_max (opt_horizon p) = Inr mx
           \<and> - a (y_var v) \<le> tar - a (s_var v mx)"
proof -
  obtain c where c: "individual_neg_deviation p v = Inr c" "c \<in> set (model_indev_neg m)"
    using Constraint_member [OF build_model_parts(13) [OF assms(1)] assms(3)] by blast
  from c(2) have "holds a c"
    using feasible_holds [OF assms(2)] by (simp add: in_constraints)
  with c(1) show ?thesis
    by (auto simp: individual_neg_deviation_def model_s_def model_y_def Inr_iffs)
qed

lemma obj_rule_sem:
  assumes "obj_rule p = Inr ob"
  shows "evaluate a ob
           = rho_y p * (\<Sum>v\<leftarrow>model_V p. a (y_var v) * the (model_E p v) / 3600)
             + rho_eps p * a eps"
    and "linear ob"
proof -
  let ?f = "\<lambda>v. div_e (mul_e (model_y p v) (param (model_E p) v)) (num 3600)"
  from assms obtain e where e: "py_sum (map ?f (model_V p)) = Inr e"
    "ob = Add (Mul (Const (rho_y p)) e) (Mul (Const (rho_eps p)) (Var eps))"
    by (auto simp: obj_rule_def Inr_iffs)
  have item: "\<exists>cap. model_E p v = Some cap
                \<and> ?f v = Inr (Div (Mul (Var (y_var v)) (Const cap)) (Const 3600))"
    if "v \<in> set (model_V p)" for v
    using py_sum_Inr(1) [OF e(1)] that
    by (auto simp: model_y_def Inr_iffs)
  have "evaluate a (projr (?f v)) = a (y_var v) * the (model_E p v) / 3600"
    if "v \<in> set (model_V p)" for v
    using item [OF that] by auto
  then have "(\<Sum>v\<leftarrow>model_V p. evaluate a (projr (?f v)))
          = (\<Sum>v\<leftarrow>model_V p. a (y_var v) * the (model_E p v) / 3600)"
    by (intro arg_cong [where f = sum_list] map_cong) simp_all
  with e(2) py_sum_Inr(2) [OF e(1), of a] show "evaluate a ob
           = rho_y p * (\<Sum>v\<leftarrow>model_V p. a (y_var v) * the (model_E p v) / 3600)
             + rho_eps p * a eps"
    by simp
  have "linear (projr (?f v))" if "v \<in> set (model_V p)" for v
    using item [OF that] by auto
  then have "linear e" using py_sum_Inr(3) [OF e(1)] by blast
  with e(2) show "linear ob" by simp
qed

subsection \<open>The shape of a horizon the model accepts\<close>

lemma fold_max_Max: "fold max xs (x::int) = Max (set (x # xs))"
  by (simp only: Max.set_eq_fold)

lemma py_max_Inr_iff: "py_max xs = Inr mx \<longleftrightarrow> xs \<noteq> [] \<and> mx = Max (set xs)"
  by (cases xs) (auto simp only: py_max.simps fold_max_Max sum.inject sum.distinct list.distinct)

lemma horizon_nonempty:
  assumes "build_model p = Inr m" and "v \<in> set (model_V p)"
  shows "opt_horizon p \<noteq> []" and "0 \<in> set (opt_horizon p)"
proof -
  obtain c where "initialsoc p v = Inr c"
    using Constraint_member [OF build_model_parts(1) [OF assms(1)] assms(2)] by blast
  then show "0 \<in> set (opt_horizon p)"
    by (auto simp: initialsoc_def model_s_def model_Tp_def Inr_iffs)
  then show "opt_horizon p \<noteq> []" by auto
qed

lemma Tp_cases:
  assumes "t \<in> set (model_Tp p)"
  shows "t \<in> set (model_T p) \<or> t = last (opt_horizon p)"
proof -
  from assms have ne: "opt_horizon p \<noteq> []" by (auto simp: model_Tp_def)
  have "set (opt_horizon p) = set (butlast (opt_horizon p) @ [last (opt_horizon p)])"
    using ne by simp
  with assms show ?thesis by (auto simp: model_Tp_def model_T_def)
qed

lemma T_below_max:
  assumes "build_model p = Inr m" and "v \<in> set (model_V p)" and "t \<in> set (model_T p)"
  shows "t < Max (set (opt_horizon p))"
proof -
  have "t + 1 \<in> set (opt_horizon p)"
    using storageConservation_built [OF assms] by (simp add: model_Tp_def)
  then have "t + 1 \<le> Max (set (opt_horizon p))" by simp
  then show ?thesis by simp
qed

lemma below_max_in_T:
  assumes "build_model p = Inr m" and "v \<in> set (model_V p)"
    and "t \<in> set (model_Tp p)" and "t < Max (set (opt_horizon p))"
  shows "t \<in> set (model_T p)"
proof (rule ccontr)
  assume nt: "t \<notin> set (model_T p)"
  with Tp_cases [OF assms(3)] have tl: "t = last (opt_horizon p)" by simp
  have ne: "opt_horizon p \<noteq> []" using assms(3) by (auto simp: model_Tp_def)
  then have "Max (set (opt_horizon p)) \<in> set (model_Tp p)"
    by (simp add: model_Tp_def)
  from Tp_cases [OF this] tl assms(4) have "Max (set (opt_horizon p)) \<in> set (model_T p)"
    by auto
  from T_below_max [OF assms(1,2) this] show False by simp
qed

lemma max_is_last:
  assumes "build_model p = Inr m" and "v \<in> set (model_V p)"
  shows "py_max (opt_horizon p) = Inr (last (opt_horizon p))"
proof -
  note ne = horizon_nonempty(1) [OF assms]
  then have "Max (set (opt_horizon p)) \<in> set (model_Tp p)"
    by (simp add: model_Tp_def)
  from Tp_cases [OF this] T_below_max [OF assms, of "Max (set (opt_horizon p))"]
  have "Max (set (opt_horizon p)) = last (opt_horizon p)" by auto
  with ne show ?thesis by (simp add: py_max_Inr_iff)
qed

subsection \<open>Saving the results\<close>

lemma save_steps_value:
  assumes "v \<in> set (model_V p)" and "py_max (opt_horizon p) = Inr mx"
    and "\<forall>t\<in>set (model_Tp p). t < mx \<longrightarrow> t \<in> set (model_T p)"
    and "set ts \<subseteq> set (model_Tp p)"
  shows "save_steps p sol v ts pv sv
           = Inr (\<lambda>t. if t \<in> set ts \<and> t < mx then Some (call sol (Var (p_ev v t))) else pv t,
                  \<lambda>t. if t \<in> set ts then Some (call sol (Var (s_var v t))) else sv t)"
  using assms(4)
proof (induction ts arbitrary: pv sv)
  case Nil
  then show ?case by simp
next
  case (Cons t ts)
  from Cons.prems have t: "t \<in> set (model_Tp p)" and ts: "set ts \<subseteq> set (model_Tp p)"
    by simp_all
  have s: "model_s p v t = Inr (Var (s_var v t))"
    using assms(1) t by (simp add: model_s_def getitem_def)
  show ?case
  proof (cases "t < mx")
    case True
    with assms(3) t have "t \<in> set (model_T p)" by blast
    then have pe: "model_p_ev p v t = Inr (Var (p_ev v t))"
      using assms(1) by (simp add: model_p_ev_def getitem_def)
    show ?thesis
      using True by (auto simp: assms(2) s pe bind_Inr Cons.IH [OF ts] fun_eq_iff)
  next
    case False
    then show ?thesis
      by (auto simp: assms(2) s bind_Inr Cons.IH [OF ts] fun_eq_iff)
  qed
qed

lemma save_results_value:
  assumes "py_max (opt_horizon p) = Inr mx"
    and "\<forall>t\<in>set (model_Tp p). t < mx \<longrightarrow> t \<in> set (model_T p)"
    and "set vs \<subseteq> set (model_V p)"
  shows "save_results p sol vs ps ss
           = Inr (\<lambda>v. if v \<in> set vs
                       then Some (\<lambda>t. if t \<in> set (model_Tp p) \<and> t < mx
                                       then Some (call sol (Var (p_ev v t))) else None)
                       else ps v,
                  \<lambda>v. if v \<in> set vs
                       then Some (\<lambda>t. if t \<in> set (model_Tp p)
                                       then Some (call sol (Var (s_var v t))) else None)
                       else ss v)"
  using assms(3)
proof (induction vs arbitrary: ps ss)
  case Nil
  then show ?case by simp
next
  case (Cons v vs)
  from Cons.prems have v: "v \<in> set (model_V p)" and vs: "set vs \<subseteq> set (model_V p)"
    by simp_all
  have "set (opt_horizon p) \<subseteq> set (model_Tp p)" by (simp add: model_Tp_def)
  note st = save_steps_value [OF v assms(1,2) this, of sol Map.empty Map.empty]
  show ?case
    by (auto simp: st bind_Inr Cons.IH [OF vs] fun_eq_iff model_Tp_def)
qed

text \<open>What reschedule returns once the model is built and the solver has returned.\<close>

lemma reschedule_value:
  assumes "build_model p = Inr m" and "solver m = Inr result"
  shows "reschedule solver p
           = Inr (\<lambda>v. if v \<in> set (model_V p)
                       then Some (\<lambda>t. if t \<in> set (model_T p)
                                       then Some (call (solution result) (Var (p_ev v t)))
                                       else None)
                       else None,
                  \<lambda>v. if v \<in> set (model_V p)
                       then Some (\<lambda>t. if t \<in> set (model_Tp p)
                                       then Some (call (solution result) (Var (s_var v t)))
                                       else None)
                       else None)"
proof (cases "model_V p = []")
  case True
  then show ?thesis
    by (simp add: reschedule_def assms bind_Inr)
next
  case False
  then obtain v where v: "v \<in> set (model_V p)" by (cases "model_V p") auto
  let ?mx = "Max (set (opt_horizon p))"
  have mx: "py_max (opt_horizon p) = Inr ?mx"
    using horizon_nonempty(1) [OF assms(1) v] by (simp add: py_max_Inr_iff)
  have cl: "\<forall>t\<in>set (model_Tp p). t < ?mx \<longrightarrow> t \<in> set (model_T p)"
    using below_max_in_T [OF assms(1) v] by blast
  have eq: "(t \<in> set (model_Tp p) \<and> t < ?mx) = (t \<in> set (model_T p))" for t
    using cl T_below_max [OF assms(1) v] T_subset_Tp by blast
  show ?thesis
    by (simp add: reschedule_def assms bind_Inr
        save_results_value [OF mx cl subset_refl] eq cong del: if_weak_cong)
qed

lemma reschedule_build_error:
  "build_model p = Inl e \<Longrightarrow> reschedule solver p = Inl e"
  by (simp add: reschedule_def bind_Inl)

lemma reschedule_solver_error:
  "build_model p = Inr m \<Longrightarrow> solver m = Inl e \<Longrightarrow> reschedule solver p = Inl e"
  by (simp add: reschedule_def bind_Inl bind_Inr)

subsection \<open>Linearity\<close>

lemma constraints_linear:
  assumes "build_model p = Inr m" and "c \<in> set (constraints m)"
  shows "linear_con c"
proof -
  note parts = build_model_parts [OF assms(1)]
  from assms(2) consider
      "c \<in> set (model_inisoc m)" | "c \<in> set (model_minsoc_con m)"
    | "c \<in> set (model_maxsoc_con m)" | "c \<in> set (model_socconst m)"
    | "c \<in> set (model_chrpowconst m)" | "c \<in> set (model_combconst1 m)"
    | "c \<in> set (model_combconst2 m)" | "c \<in> set (model_ccpowtotal m)"
    | "c \<in> set (model_viol_clust m)" | "c \<in> set (model_ccpowcap_pos m)"
    | "c \<in> set (model_ccpowcap_neg m)" | "c \<in> set (model_indev_pos m)"
    | "c \<in> set (model_indev_neg m)"
    unfolding in_constraints by blast
  then show ?thesis
  proof cases
    case 1
    from Constraint_origin [OF parts(1) 1] show ?thesis
      by (auto simp: initialsoc_def model_s_def Inr_iffs)
  next
    case 2
    from Constraint2_origin [OF parts(2) 2] show ?thesis
      by (auto simp: minimumsoc_def model_s_def Inr_iffs)
  next
    case 3
    from Constraint2_origin [OF parts(3) 3] show ?thesis
      by (auto simp: maximumsoc_def model_s_def Inr_iffs)
  next
    case 4
    from Constraint2_origin [OF parts(4) 4] show ?thesis
      by (auto simp: storageConservation_def model_s_def model_p_ev_pos_def
          model_p_ev_neg_def Inr_iffs)
  next
    case 5
    from Constraint2_origin [OF parts(5) 5] show ?thesis
      by (auto simp: chargepowerlimit_def model_p_ev_def model_p_ev_pos_def
          model_p_ev_neg_def Inr_iffs)
  next
    case 6
    from Constraint2_origin [OF parts(6) 6] show ?thesis
      by (auto simp: combinatorics_ch_def model_p_ev_pos_def model_x_ev_def Inr_iffs
          split: if_splits)
  next
    case 7
    from Constraint2_origin [OF parts(7) 7] show ?thesis
      by (auto simp: combinatorics_ds_def model_p_ev_neg_def model_x_ev_def Inr_iffs
          split: if_splits)
  next
    case 8
    from Constraint_origin [OF parts(8) 8] obtain t where t: "ccpower p t = Inr c" by blast
    let ?f = "\<lambda>v. sub_e (div_e (model_p_ev_pos p v t) (param (ch_eff p) v))
                            (mul_e (model_p_ev_neg p v t) (param (ds_eff p) v))"
    from t obtain e where e: "py_sum (map ?f (model_V p)) = Inr e" "c = Eq (Var (p_cc t)) e"
      by (auto simp: ccpower_def model_p_cc_def Inr_iffs)
    have item: "\<exists>ce de. ?f v = Inr (Sub (Div (Var (p_ev_pos v t)) (Const ce))
                                       (Mul (Var (p_ev_neg v t)) (Const de)))"
      if "v \<in> set (model_V p)" for v
      using py_sum_Inr(1) [OF e(1)] that
      by (auto simp: model_p_ev_pos_def model_p_ev_neg_def Inr_iffs)
    have "linear (projr (?f v))" if "v \<in> set (model_V p)" for v
      using item [OF that] by auto
    then have "linear e" using py_sum_Inr(3) [OF e(1)] by blast
    with e(2) show ?thesis by simp
  next
    case 9
    with parts(9) show ?thesis
      by (auto simp: cluster_limit_violation_def Inr_iffs)
  next
    case 10
    from Constraint_origin [OF parts(10) 10] show ?thesis
      by (auto simp: cluster_upper_limit_def model_p_cc_def Inr_iffs)
  next
    case 11
    from Constraint_origin [OF parts(11) 11] show ?thesis
      by (auto simp: cluster_lower_limit_def model_p_cc_def Inr_iffs)
  next
    case 12
    from Constraint_origin [OF parts(12) 12] show ?thesis
      by (auto simp: individual_pos_deviation_def model_s_def model_y_def Inr_iffs)
  next
    case 13
    from Constraint_origin [OF parts(13) 13] show ?thesis
      by (auto simp: individual_neg_deviation_def model_s_def model_y_def Inr_iffs)
  qed
qed

text \<open>The tree predicate means what it says: a linear expression is an affine function of the assignment.\<close>

lemma is_constant_evaluate: "is_constant e \<Longrightarrow> evaluate a e = evaluate b e"
  by (induction e) simp_all

lemma linear_affine:
  "linear e \<Longrightarrow>
     evaluate (\<lambda>x. k * a x + (1 - k) * b x) e = k * evaluate a e + (1 - k) * evaluate b e"
proof (induction e)
  case (Mul e f)
  let ?c = "\<lambda>x. k * a x + (1 - k) * b x"
  from Mul.prems consider (l) "is_constant e" "linear f" | (r) "linear e" "is_constant f"
    by auto
  then show ?case
  proof cases
    case l
    have ce: "evaluate ?c e = evaluate a e" and be: "evaluate b e = evaluate a e"
      by (rule is_constant_evaluate [OF l(1)])+
    have "evaluate ?c (Mul e f) = evaluate ?c e * evaluate ?c f" by simp
    also have "\<dots> = evaluate a e * (k * evaluate a f + (1 - k) * evaluate b f)"
      by (simp only: ce Mul.IH(2) [OF l(2)])
    also have "\<dots> = k * (evaluate a e * evaluate a f)
                      + (1 - k) * (evaluate a e * evaluate b f)"
      by (simp add: algebra_simps)
    also have "\<dots> = k * evaluate a (Mul e f) + (1 - k) * evaluate b (Mul e f)"
      by (simp only: evaluate.simps be)
    finally show ?thesis .
  next
    case r
    have cf: "evaluate ?c f = evaluate a f" and bf: "evaluate b f = evaluate a f"
      by (rule is_constant_evaluate [OF r(2)])+
    have "evaluate ?c (Mul e f) = evaluate ?c e * evaluate ?c f" by simp
    also have "\<dots> = (k * evaluate a e + (1 - k) * evaluate b e) * evaluate a f"
      by (simp only: cf Mul.IH(1) [OF r(1)])
    also have "\<dots> = k * (evaluate a e * evaluate a f)
                      + (1 - k) * (evaluate b e * evaluate a f)"
      by (simp add: algebra_simps)
    also have "\<dots> = k * evaluate a (Mul e f) + (1 - k) * evaluate b (Mul e f)"
      by (simp only: evaluate.simps bf)
    finally show ?thesis .
  qed
next
  case (Div e f)
  let ?c = "\<lambda>x. k * a x + (1 - k) * b x"
  from Div.prems have lf: "linear e" "is_constant f" by auto
  have cf: "evaluate ?c f = evaluate a f" and bf: "evaluate b f = evaluate a f"
    by (rule is_constant_evaluate [OF lf(2)])+
  have "evaluate ?c (Div e f) = evaluate ?c e / evaluate ?c f" by simp
  also have "\<dots> = (k * evaluate a e + (1 - k) * evaluate b e) / evaluate a f"
    by (simp only: cf Div.IH(1) [OF lf(1)])
  also have "\<dots> = k * (evaluate a e / evaluate a f)
                    + (1 - k) * (evaluate b e / evaluate a f)"
    by (simp add: add_divide_distrib)
  also have "\<dots> = k * evaluate a (Div e f) + (1 - k) * evaluate b (Div e f)"
    by (simp only: evaluate.simps bf)
  finally show ?case .
qed (simp_all add: algebra_simps)

subsection \<open>The example inputs evaluated\<close>

lemmas build_simps = bind_Inl bind_Inr lift2_def add_e_def sub_e_def mul_e_def neg_e_def
  div_e_def le_e_def eq_e_def ge_e_def num_def py_sum_def lookup_def param_def
  model_V_def model_T_def model_Tp_def model_E_def getitem_def model_p_ev_def
  model_p_ev_pos_def model_p_ev_neg_def model_x_ev_def model_s_def model_p_cc_def
  model_eps_def model_y_def initialsoc_def minimumsoc_def maximumsoc_def
  storageConservation_def chargepowerlimit_def combinatorics_ch_def combinatorics_ds_def
  ccpower_def cluster_limit_violation_def cluster_upper_limit_def cluster_lower_limit_def
  individual_pos_deviation_def individual_neg_deviation_def obj_rule_def Constraint2_def
  declare_vars_def build_model_def

lemma p0_built: "build_model p0 = Inr m0"
  by (simp add: m0_def p0_def build_simps)

lemma a0_feasible: "feasible m0 a0"
  by (simp add: m0_def p0_def build_simps feasible_def constraints_def a0_def)

lemma p0_sets: "model_V p0 = [''EV1'', ''EV2'']" "model_T p0 = [0, 1]" "model_Tp p0 = [0, 1, 2]"
  by (simp_all add: p0_def model_V_def model_T_def model_Tp_def)

lemma p_mismatch_built: "\<not> isl (build_model p_mismatch)"
  by (simp add: p_mismatch_def p0_def build_simps)


section \<open>The claims\<close>

lemma returned_entries:
  assumes "build_model p = Inr m" and "solver m = Inr result" and "solution result = Some a"
    and "v \<in> set (model_V p)"
  shows "\<exists>ps ss pv sv. reschedule solver p = Inr (ps, ss) \<and> ps v = Some pv \<and> ss v = Some sv
           \<and> (\<forall>t. pv t = (if t \<in> set (model_T p) then Some (Some (a (p_ev v t))) else None))
           \<and> (\<forall>t. sv t = (if t \<in> set (model_Tp p) then Some (Some (a (s_var v t))) else None))"
  by (simp add: reschedule_value [where solver = solver, OF assms(1,2)] assms(3,4) call_def)

text \<open>
  C1. For a feasible solution returned through reschedule, every vehicle v and every flow
  step t: the SOC variables satisfy s[v,t+1] = s[v,t] + (p_ev_pos[v,t] - p_ev_neg[v,t]) /
  E[v] * deltaSec, the returned power p_schedule[v][t] is p_ev_pos[v,t] - p_ev_neg[v,t],
  and so the returned trajectory satisfies s_schedule[v][t+1] = s_schedule[v][t] +
  p_schedule[v][t] / E[v] * deltaSec. The capacity is not zero, or the model would not
  have been built.
\<close>

theorem storage_conservation_returned:
  assumes "build_model p = Inr m" and "solver m = Inr result" and "solution result = Some a"
    and "feasible m a" and "v \<in> set (model_V p)" and "t \<in> set (model_T p)"
  shows "\<exists>cap ps ss pv sv pw s0 s1.
           model_E p v = Some cap \<and> cap \<noteq> 0
           \<and> a (s_var v (t + 1))
               = a (s_var v t) + (a (p_ev_pos v t) - a (p_ev_neg v t)) / cap * opt_step p
           \<and> reschedule solver p = Inr (ps, ss) \<and> ps v = Some pv \<and> ss v = Some sv
           \<and> pv t = Some (Some pw) \<and> pw = a (p_ev_pos v t) - a (p_ev_neg v t)
           \<and> sv t = Some (Some s0) \<and> sv (t + 1) = Some (Some s1)
           \<and> s1 = s0 + pw / cap * opt_step p"
proof -
  obtain cap where cap: "model_E p v = Some cap" "cap \<noteq> 0"
    "a (s_var v (t + 1))
       = a (s_var v t) + (a (p_ev_pos v t) - a (p_ev_neg v t)) / cap * opt_step p"
    using storageConservation_sem [OF assms(1,4,5,6)] by blast
  note net = chargepowerlimit_sem [OF assms(1,4,5,6)]
  have t1: "t + 1 \<in> set (model_Tp p)"
    using storageConservation_built [OF assms(1,5,6)] by simp
  note t0 = T_subset_Tp [OF assms(6)]
  obtain ps ss pv sv where r: "reschedule solver p = Inr (ps, ss)" "ps v = Some pv"
    "ss v = Some sv"
    "\<forall>t. pv t = (if t \<in> set (model_T p) then Some (Some (a (p_ev v t))) else None)"
    "\<forall>t. sv t = (if t \<in> set (model_Tp p) then Some (Some (a (s_var v t))) else None)"
    using returned_entries [where solver = solver, OF assms(1,2,3,5)] by blast
  from r(4) assms(6) have "pv t = Some (Some (a (p_ev v t)))" by simp
  moreover from r(5) t0 have "sv t = Some (Some (a (s_var v t)))" by simp
  moreover from r(5) t1 have "sv (t + 1) = Some (Some (a (s_var v (t + 1))))" by simp
  ultimately show ?thesis using cap net r(1,2,3) by simp
qed

theorem storage_conservation_returned_witness:
  "build_model p0 = Inr m0
   \<and> solver0 m0 = Inr \<lparr> termination_condition = optimal, solution = Some a0 \<rparr>
   \<and> feasible m0 a0 \<and> ''EV1'' \<in> set (model_V p0) \<and> 0 \<in> set (model_T p0)
   \<and> (\<exists>cap ps ss pv sv pw s0 s1.
           model_E p0 ''EV1'' = Some cap \<and> cap \<noteq> 0
           \<and> a0 (s_var ''EV1'' (0 + 1))
               = a0 (s_var ''EV1'' 0)
                 + (a0 (p_ev_pos ''EV1'' 0) - a0 (p_ev_neg ''EV1'' 0)) / cap * opt_step p0
           \<and> reschedule solver0 p0 = Inr (ps, ss) \<and> ps ''EV1'' = Some pv
           \<and> ss ''EV1'' = Some sv
           \<and> pv 0 = Some (Some pw) \<and> pw = a0 (p_ev_pos ''EV1'' 0) - a0 (p_ev_neg ''EV1'' 0)
           \<and> sv 0 = Some (Some s0) \<and> sv (0 + 1) = Some (Some s1)
           \<and> s1 = s0 + pw / cap * opt_step p0)"
proof -
  have s: "solver0 m0 = Inr \<lparr> termination_condition = optimal, solution = Some a0 \<rparr>"
    by (simp add: solver0_def)
  have sol: "solution \<lparr> termination_condition = optimal, solution = Some a0 \<rparr> = Some a0"
    by simp
  have v: "''EV1'' \<in> set (model_V p0)" and t: "0 \<in> set (model_T p0)"
    by (simp_all add: p0_sets)
  show ?thesis
    using storage_conservation_returned [where solver = solver0, OF p0_built s sol a0_feasible v t]
      p0_built s a0_feasible v t by blast
qed

text \<open>
  C2. For a feasible solution, every vehicle v and every flow step t: when t is at or after
  the departure index of v, p_ev_pos[v,t] and p_ev_neg[v,t] are 0 and the returned
  p_schedule[v][t] is exactly 0; before the departure, p_ev_pos[v,t] is at most
  x_ev[v,t] * P_EV_pos[v] and p_ev_neg[v,t] at most (1 - x_ev[v,t]) * P_EV_neg[v]. The
  selector x_ev[v,t] is 0 or 1, so in every flow step one of the two powers is 0.
\<close>

theorem departure_and_exclusivity:
  assumes "build_model p = Inr m" and "solver m = Inr result" and "solution result = Some a"
    and "feasible m a" and "v \<in> set (model_V p)" and "t \<in> set (model_T p)"
  shows "\<exists>t_dep ps ss pv.
           deptime p v = Some t_dep
           \<and> reschedule solver p = Inr (ps, ss) \<and> ps v = Some pv
           \<and> (a (x_ev v t) = 0 \<or> a (x_ev v t) = 1)
           \<and> (a (p_ev_pos v t) = 0 \<or> a (p_ev_neg v t) = 0)
           \<and> (if real_of_int t \<ge> t_dep
               then a (p_ev_pos v t) = 0 \<and> a (p_ev_neg v t) = 0 \<and> pv t = Some (Some 0)
               else \<exists>pos neg. pmax_pos p v = Some pos \<and> pmax_neg p v = Some neg
                      \<and> a (p_ev_pos v t) \<le> a (x_ev v t) * pos
                      \<and> a (p_ev_neg v t) \<le> (1 - a (x_ev v t)) * neg)"
proof -
  obtain t_dep where d: "deptime p v = Some t_dep"
    and ch: "if real_of_int t \<ge> t_dep then a (p_ev_pos v t) = 0
             else \<exists>pos. pmax_pos p v = Some pos \<and> a (p_ev_pos v t) \<le> a (x_ev v t) * pos"
    using combinatorics_ch_sem [OF assms(1,4,5,6)] by blast
  have ds: "if real_of_int t \<ge> t_dep then a (p_ev_neg v t) = 0
            else \<exists>neg. pmax_neg p v = Some neg
                   \<and> a (p_ev_neg v t) \<le> (1 - a (x_ev v t)) * neg"
    using combinatorics_ds_sem [OF assms(1,4,5,6)] d by auto
  note dom = domains_sem(1,2,3) [OF assms(1,4,5,6)]
  note net = chargepowerlimit_sem [OF assms(1,4,5,6)]
  obtain ps ss pv sv where r: "reschedule solver p = Inr (ps, ss)" "ps v = Some pv"
    "\<forall>t. pv t = (if t \<in> set (model_T p) then Some (Some (a (p_ev v t))) else None)"
    using returned_entries [where solver = solver, OF assms(1,2,3,5)] by blast
  from r(3) assms(6) have pv: "pv t = Some (Some (a (p_ev v t)))" by simp
  have one: "a (p_ev_pos v t) = 0 \<or> a (p_ev_neg v t) = 0"
  proof (cases "real_of_int t \<ge> t_dep")
    case True
    with ch show ?thesis by simp
  next
    case False
    with ch ds dom show ?thesis by auto
  qed
  show ?thesis
  proof (cases "real_of_int t \<ge> t_dep")
    case True
    with ch ds d r(1,2) pv net dom(3) one show ?thesis by auto
  next
    case False
    with ch ds d r(1,2) dom(3) one show ?thesis by auto
  qed
qed

theorem departure_and_exclusivity_witness:
  "build_model p0 = Inr m0
   \<and> solver0 m0 = Inr \<lparr> termination_condition = optimal, solution = Some a0 \<rparr>
   \<and> feasible m0 a0 \<and> ''EV2'' \<in> set (model_V p0) \<and> ''EV1'' \<in> set (model_V p0)
   \<and> 0 \<in> set (model_T p0)
   \<and> deptime p0 ''EV2'' = Some 0 \<and> real_of_int 0 \<ge> (0::real)
   \<and> a0 (p_ev_pos ''EV2'' 0) = 0 \<and> a0 (p_ev_neg ''EV2'' 0) = 0
   \<and> (\<exists>ps ss pv. reschedule solver0 p0 = Inr (ps, ss) \<and> ps ''EV2'' = Some pv
         \<and> pv 0 = Some (Some 0))
   \<and> deptime p0 ''EV1'' = Some 2 \<and> real_of_int 0 < (2::real)
   \<and> a0 (x_ev ''EV1'' 0) = 1
   \<and> a0 (p_ev_pos ''EV1'' 0) \<le> a0 (x_ev ''EV1'' 0) * 11
   \<and> a0 (p_ev_neg ''EV1'' 0) \<le> (1 - a0 (x_ev ''EV1'' 0)) * 11"
proof -
  have s: "solver0 m0 = Inr \<lparr> termination_condition = optimal, solution = Some a0 \<rparr>"
    by (simp add: solver0_def)
  have sol: "solution \<lparr> termination_condition = optimal, solution = Some a0 \<rparr> = Some a0"
    by simp
  have v2: "''EV2'' \<in> set (model_V p0)" and v1: "''EV1'' \<in> set (model_V p0)"
    and t: "0 \<in> set (model_T p0)"
    by (simp_all add: p0_sets)
  have d: "deptime p0 ''EV2'' = Some 0" "deptime p0 ''EV1'' = Some 2"
    "pmax_pos p0 ''EV1'' = Some 11" "pmax_neg p0 ''EV1'' = Some 11"
    by (simp_all add: p0_def)
  have x: "a0 (x_ev ''EV1'' 0) = 1" by (simp add: a0_def)
  from departure_and_exclusivity [where solver = solver0, OF p0_built s sol a0_feasible v2 t]
  have 2: "a0 (p_ev_pos ''EV2'' 0) = 0 \<and> a0 (p_ev_neg ''EV2'' 0) = 0
     \<and> (\<exists>ps ss pv. reschedule solver0 p0 = Inr (ps, ss) \<and> ps ''EV2'' = Some pv
         \<and> pv 0 = Some (Some 0))"
    using d(1) by auto
  from departure_and_exclusivity [where solver = solver0, OF p0_built s sol a0_feasible v1 t]
  have 1: "a0 (p_ev_pos ''EV1'' 0) \<le> a0 (x_ev ''EV1'' 0) * 11
     \<and> a0 (p_ev_neg ''EV1'' 0) \<le> (1 - a0 (x_ev ''EV1'' 0)) * 11"
    using d(2,3,4) by auto
  show ?thesis
    using 1 2 p0_built s a0_feasible v1 v2 t d(1,2) x by simp
qed

lemma evaluate_upd: "\<not> occurs x e \<Longrightarrow> evaluate (a(x := z)) e = evaluate a e"
  by (induction e) auto

lemma holds_upd: "\<not> occurs_con x c \<Longrightarrow> holds (a(x := z)) c = holds a c"
  by (cases c) (auto simp: evaluate_upd)




text \<open>
  C4. In a feasible solution the single variable eps is nonnegative and at most the
  tolerance, and in every flow step t: p_cc[t] <= eps + P_CC_up[t] and
  -eps + P_CC_low[t] <= p_cc[t]. The same eps serves every step, so each step alone
  violates a limit by at most the tolerance.
\<close>

theorem cluster_limits_shared_slack:
  assumes "build_model p = Inr m" and "feasible m a" and "t \<in> set (model_T p)"
  shows "\<exists>up low. upperlimit p t = Some up \<and> lowerlimit p t = Some low
           \<and> 0 \<le> a eps \<and> a eps \<le> tolerance p
           \<and> a (p_cc t) \<le> a eps + up \<and> low - a eps \<le> a (p_cc t)
           \<and> a (p_cc t) - up \<le> tolerance p \<and> low - a (p_cc t) \<le> tolerance p"
proof -
  obtain up where up: "upperlimit p t = Some up" "a (p_cc t) \<le> a eps + up"
    using cluster_upper_limit_sem [OF assms] by blast
  obtain low where low: "lowerlimit p t = Some low" "- a eps + low \<le> a (p_cc t)"
    using cluster_lower_limit_sem [OF assms] by blast
  note tol = cluster_limit_violation_sem [OF assms(1,2)]
  note nn = domains_sem(5) [OF assms(1,2)]
  from up low tol nn show ?thesis by auto
qed

text \<open>
  In the example both flow steps exceed the upper limit by the full tolerance: the
  violations add up to twice the tolerance.
\<close>

theorem cluster_limits_shared_slack_witness:
  "build_model p0 = Inr m0 \<and> feasible m0 a0 \<and> 0 \<in> set (model_T p0) \<and> 1 \<in> set (model_T p0)
   \<and> upperlimit p0 0 = Some 10 \<and> lowerlimit p0 0 = Some 0 \<and> tolerance p0 = 1
   \<and> 0 \<le> a0 eps \<and> a0 eps \<le> tolerance p0
   \<and> a0 (p_cc 0) \<le> a0 eps + 10 \<and> 0 - a0 eps \<le> a0 (p_cc 0)
   \<and> a0 (p_cc 0) - 10 \<le> tolerance p0
   \<and> a0 (p_cc 1) - 10 \<le> tolerance p0
   \<and> (a0 (p_cc 0) - 10) + (a0 (p_cc 1) - 10) > tolerance p0"
proof -
  have t: "0 \<in> set (model_T p0)" "1 \<in> set (model_T p0)"
    by (simp_all add: p0_sets)
  have l: "upperlimit p0 0 = Some 10" "lowerlimit p0 0 = Some 0" "tolerance p0 = 1"
    "upperlimit p0 1 = Some 10" "lowerlimit p0 1 = Some 0"
    by (simp_all add: p0_def)
  have cum: "(a0 (p_cc 0) - 10) + (a0 (p_cc 1) - 10) > tolerance p0"
    by (simp add: a0_def p0_def)
  show ?thesis
    using cluster_limits_shared_slack [OF p0_built a0_feasible t(1)]
      cluster_limits_shared_slack [OF p0_built a0_feasible t(2)]
      p0_built a0_feasible t l cum
    by auto
qed

text \<open>
  C5. In a feasible solution, in every flow step t, p_cc[t] is the sum over the vehicles of
  p_ev_pos[v,t] / eff_ch[v] - p_ev_neg[v,t] * eff_ds[v]: the charging power is divided by
  its efficiency, the discharging power multiplied by its own. Every vehicle has both
  efficiencies and a charging efficiency other than 0, or the model would not have been
  built.
\<close>

theorem cluster_aggregation:
  assumes "build_model p = Inr m" and "feasible m a" and "t \<in> set (model_T p)"
  shows "a (p_cc t)
           = (\<Sum>v\<leftarrow>model_V p. a (p_ev_pos v t) / the (ch_eff p v)
                                - a (p_ev_neg v t) * the (ds_eff p v))
         \<and> list_all (\<lambda>v. \<exists>ce de. ch_eff p v = Some ce \<and> ce \<noteq> 0 \<and> ds_eff p v = Some de)
             (model_V p)"
  using ccpower_sem [OF assms] by (simp add: list_all_iff)

theorem cluster_aggregation_witness:
  "build_model p0 = Inr m0 \<and> feasible m0 a0 \<and> 0 \<in> set (model_T p0)
   \<and> model_V p0 = [''EV1'', ''EV2'']
   \<and> ch_eff p0 ''EV1'' = Some (1 / 2) \<and> ds_eff p0 ''EV1'' = Some (1 / 2)
   \<and> ch_eff p0 ''EV2'' = Some (1 / 2) \<and> ds_eff p0 ''EV2'' = Some (1 / 2)
   \<and> a0 (p_cc 0)
       = a0 (p_ev_pos ''EV1'' 0) / (1 / 2) - a0 (p_ev_neg ''EV1'' 0) * (1 / 2)
         + (a0 (p_ev_pos ''EV2'' 0) / (1 / 2) - a0 (p_ev_neg ''EV2'' 0) * (1 / 2))"
proof -
  have t: "0 \<in> set (model_T p0)" by (simp add: p0_sets)
  have e: "ch_eff p0 ''EV1'' = Some (1 / 2)" "ds_eff p0 ''EV1'' = Some (1 / 2)"
    "ch_eff p0 ''EV2'' = Some (1 / 2)" "ds_eff p0 ''EV2'' = Some (1 / 2)"
    by (simp_all add: p0_def)
  show ?thesis
    using cluster_aggregation [OF p0_built a0_feasible t] p0_built a0_feasible t e
    by (simp add: p0_sets)
qed

lemma foldl_add_e_occurs:
  "foldl add_e acc (map f vs) = Inr e \<Longrightarrow> acc = Inr e0 \<Longrightarrow> \<not> occurs x e0
     \<Longrightarrow> (\<forall>v\<in>set vs. \<not> occurs x (projr (f v))) \<Longrightarrow> \<not> occurs x e"
proof (induction vs arbitrary: acc e0)
  case Nil
  then show ?case by simp
next
  case (Cons v vs)
  from Cons.prems(1) have *: "foldl add_e (add_e acc (f v)) (map f vs) = Inr e" by simp
  from foldl_add_e_Inr [OF *, of "\<lambda>_. 0"] obtain e1 where e1: "add_e acc (f v) = Inr e1"
    by blast
  with Cons.prems(2) obtain c where c: "f v = Inr c" "e1 = Add e0 c"
    by (auto simp: add_e_Inr_iff)
  with Cons.prems(3,4) have "\<not> occurs x e1" by simp
  from Cons.IH [OF * e1 this] Cons.prems(4) show ?case by simp
qed

lemma py_sum_occurs:
  "py_sum (map f vs) = Inr e \<Longrightarrow> (\<forall>v\<in>set vs. \<not> occurs x (projr (f v))) \<Longrightarrow> \<not> occurs x e"
  unfolding py_sum_def num_def by (rule foldl_add_e_occurs [where ?e0.0 = "Const 0"]) simp_all

text \<open>The deviation slack of a vehicle occurs in the two deviation constraints only.\<close>

lemma y_var_elsewhere:
  assumes "build_model p = Inr m"
    and "c \<in> set (model_inisoc m @ model_minsoc_con m @ model_maxsoc_con m
                  @ model_socconst m @ model_chrpowconst m @ model_combconst1 m
                  @ model_combconst2 m @ model_ccpowtotal m @ model_viol_clust m
                  @ model_ccpowcap_pos m @ model_ccpowcap_neg m)"
  shows "\<not> occurs_con (y_var v) c"
proof -
  note parts = build_model_parts [OF assms(1)]
  from assms(2) consider
      "c \<in> set (model_inisoc m)" | "c \<in> set (model_minsoc_con m)"
    | "c \<in> set (model_maxsoc_con m)" | "c \<in> set (model_socconst m)"
    | "c \<in> set (model_chrpowconst m)" | "c \<in> set (model_combconst1 m)"
    | "c \<in> set (model_combconst2 m)" | "c \<in> set (model_ccpowtotal m)"
    | "c \<in> set (model_viol_clust m)" | "c \<in> set (model_ccpowcap_pos m)"
    | "c \<in> set (model_ccpowcap_neg m)"
    by auto
  then show ?thesis
  proof cases
    case 1
    from Constraint_origin [OF parts(1) 1] show ?thesis
      by (auto simp: initialsoc_def model_s_def Inr_iffs)
  next
    case 2
    from Constraint2_origin [OF parts(2) 2] show ?thesis
      by (auto simp: minimumsoc_def model_s_def Inr_iffs)
  next
    case 3
    from Constraint2_origin [OF parts(3) 3] show ?thesis
      by (auto simp: maximumsoc_def model_s_def Inr_iffs)
  next
    case 4
    from Constraint2_origin [OF parts(4) 4] show ?thesis
      by (auto simp: storageConservation_def model_s_def model_p_ev_pos_def
          model_p_ev_neg_def Inr_iffs)
  next
    case 5
    from Constraint2_origin [OF parts(5) 5] show ?thesis
      by (auto simp: chargepowerlimit_def model_p_ev_def model_p_ev_pos_def
          model_p_ev_neg_def Inr_iffs)
  next
    case 6
    from Constraint2_origin [OF parts(6) 6] show ?thesis
      by (auto simp: combinatorics_ch_def model_p_ev_pos_def model_x_ev_def Inr_iffs
          split: if_splits)
  next
    case 7
    from Constraint2_origin [OF parts(7) 7] show ?thesis
      by (auto simp: combinatorics_ds_def model_p_ev_neg_def model_x_ev_def Inr_iffs
          split: if_splits)
  next
    case 8
    from Constraint_origin [OF parts(8) 8] obtain t where t: "ccpower p t = Inr c" by blast
    let ?f = "\<lambda>v. sub_e (div_e (model_p_ev_pos p v t) (param (ch_eff p) v))
                            (mul_e (model_p_ev_neg p v t) (param (ds_eff p) v))"
    from t obtain e where e: "py_sum (map ?f (model_V p)) = Inr e" "c = Eq (Var (p_cc t)) e"
      by (auto simp: ccpower_def model_p_cc_def Inr_iffs)
    have item: "\<exists>ce de. ?f w = Inr (Sub (Div (Var (p_ev_pos w t)) (Const ce))
                                       (Mul (Var (p_ev_neg w t)) (Const de)))"
      if "w \<in> set (model_V p)" for w
      using py_sum_Inr(1) [OF e(1)] that
      by (auto simp: model_p_ev_pos_def model_p_ev_neg_def Inr_iffs)
    have "\<not> occurs (y_var v) (projr (?f w))" if "w \<in> set (model_V p)" for w
      using item [OF that] by auto
    then have "\<not> occurs (y_var v) e" using py_sum_occurs [OF e(1)] by blast
    with e(2) show ?thesis by simp
  next
    case 9
    with parts(9) show ?thesis
      by (auto simp: cluster_limit_violation_def Inr_iffs)
  next
    case 10
    from Constraint_origin [OF parts(10) 10] show ?thesis
      by (auto simp: cluster_upper_limit_def model_p_cc_def Inr_iffs)
  next
    case 11
    from Constraint_origin [OF parts(11) 11] show ?thesis
      by (auto simp: cluster_lower_limit_def model_p_cc_def Inr_iffs)
  qed
qed

lemma deviation_raise:
  assumes "build_model p = Inr m"
    and "c \<in> set (model_indev_pos m) \<or> c \<in> set (model_indev_neg m)"
    and "holds a c" and "0 \<le> d"
  shows "holds (a(y_var v := a (y_var v) + d)) c"
  using assms(2)
proof
  assume "c \<in> set (model_indev_pos m)"
  from Constraint_origin [OF build_model_parts(12) [OF assms(1)] this] assms(3,4)
  show ?thesis
    by (auto simp: individual_pos_deviation_def model_s_def model_y_def Inr_iffs)
next
  assume "c \<in> set (model_indev_neg m)"
  from Constraint_origin [OF build_model_parts(13) [OF assms(1)] this] assms(3,4)
  show ?thesis
    by (auto simp: individual_neg_deviation_def model_s_def model_y_def Inr_iffs)
qed

lemma feasible_raise_y:
  assumes "build_model p = Inr m" and "feasible m a" and "0 \<le> d"
  shows "feasible m (a(y_var v := a (y_var v) + d))"
proof -
  let ?b = "a(y_var v := a (y_var v) + d)"
  have dom: "in_domain (domain_of x) (?b x)" if "x \<in> set (model_vars m)" for x
    using feasible_domain [OF assms(2) that] assms(3) by (cases "x = y_var v") auto
  have con: "holds ?b c" if c: "c \<in> set (constraints m)" for c
  proof (cases "c \<in> set (model_indev_pos m) \<or> c \<in> set (model_indev_neg m)")
    case True
    from deviation_raise [OF assms(1) True feasible_holds [OF assms(2) c] assms(3)]
    show ?thesis .
  next
    case False
    with c have "c \<in> set (model_inisoc m @ model_minsoc_con m @ model_maxsoc_con m
                  @ model_socconst m @ model_chrpowconst m @ model_combconst1 m
                  @ model_combconst2 m @ model_ccpowtotal m @ model_viol_clust m
                  @ model_ccpowcap_pos m @ model_ccpowcap_neg m)"
      by (auto simp: constraints_def)
    from y_var_elsewhere [OF assms(1) this] feasible_holds [OF assms(2) c]
    show ?thesis by (simp add: holds_upd)
  qed
  from dom con show ?thesis by (simp add: feasible_def list_all_iff)
qed

text \<open>
  C6. The objective is declared with sense minimize and its value is
  rho_y * (sum over the vehicles of y[v] * E[v] / 3600) + rho_eps * eps. For every vehicle
  v a feasible solution satisfies s_tar[v] - s[v, last step] <= y[v] and
  -y[v] <= s_tar[v] - s[v, last step], hence the absolute deviation is at most y[v]. No
  other constraint mentions y[v], and raising y[v] keeps a feasible solution feasible:
  nothing bounds y[v] from above. The objective and every constraint are linear.
\<close>

theorem objective_and_deviation:
  assumes "build_model p = Inr m" and "feasible m a" and "v \<in> set (model_V p)"
    and "0 \<le> d"
  shows "model_obj_sense m = minimize
         \<and> evaluate a (model_obj m)
             = rho_y p * (\<Sum>w\<leftarrow>model_V p. a (y_var w) * the (model_E p w) / 3600)
               + rho_eps p * a eps
         \<and> (\<exists>tar. tarsoc p v = Some tar
               \<and> tar - a (s_var v (last (opt_horizon p))) \<le> a (y_var v)
               \<and> - a (y_var v) \<le> tar - a (s_var v (last (opt_horizon p)))
               \<and> \<bar>tar - a (s_var v (last (opt_horizon p)))\<bar> \<le> a (y_var v))
         \<and> list_all (\<lambda>c. \<not> occurs_con (y_var v) c)
              (model_inisoc m @ model_minsoc_con m @ model_maxsoc_con m
               @ model_socconst m @ model_chrpowconst m @ model_combconst1 m
               @ model_combconst2 m @ model_ccpowtotal m @ model_viol_clust m
               @ model_ccpowcap_pos m @ model_ccpowcap_neg m)
         \<and> feasible m (a(y_var v := a (y_var v) + d))
         \<and> linear (model_obj m) \<and> list_all linear_con (constraints m)"
proof -
  note ob = build_model_parts(14) [OF assms(1)]
  have mx: "py_max (opt_horizon p) = Inr (last (opt_horizon p))"
    by (rule max_is_last [OF assms(1,3)])
  from individual_pos_deviation_sem [OF assms(1,2,3)]
    individual_neg_deviation_sem [OF assms(1,2,3)] mx
  have dev: "\<exists>tar. tarsoc p v = Some tar
               \<and> tar - a (s_var v (last (opt_horizon p))) \<le> a (y_var v)
               \<and> - a (y_var v) \<le> tar - a (s_var v (last (opt_horizon p)))
               \<and> \<bar>tar - a (s_var v (last (opt_horizon p)))\<bar> \<le> a (y_var v)"
    by auto
  have free: "list_all (\<lambda>c. \<not> occurs_con (y_var v) c)
              (model_inisoc m @ model_minsoc_con m @ model_maxsoc_con m
               @ model_socconst m @ model_chrpowconst m @ model_combconst1 m
               @ model_combconst2 m @ model_ccpowtotal m @ model_viol_clust m
               @ model_ccpowcap_pos m @ model_ccpowcap_neg m)"
    unfolding list_all_iff using y_var_elsewhere [OF assms(1)] by blast
  have lin: "list_all linear_con (constraints m)"
    unfolding list_all_iff using constraints_linear [OF assms(1)] by blast
  from build_model_parts(16) [OF assms(1)] obj_rule_sem [OF ob] dev free lin
    feasible_raise_y [OF assms(1,2,4)]
  show ?thesis by blast
qed

theorem objective_and_deviation_witness:
  "build_model p0 = Inr m0 \<and> feasible m0 a0 \<and> ''EV1'' \<in> set (model_V p0) \<and> (0::real) \<le> 3
   \<and> model_obj_sense m0 = minimize
   \<and> evaluate a0 (model_obj m0) = 1 * (1 / 2 * 6600 / 3600 + 0 * 6600 / 3600) + 1 * 1
   \<and> tarsoc p0 ''EV1'' = Some 1 \<and> last (opt_horizon p0) = 2
   \<and> 1 - a0 (s_var ''EV1'' 2) \<le> a0 (y_var ''EV1'')
   \<and> - a0 (y_var ''EV1'') \<le> 1 - a0 (s_var ''EV1'' 2)
   \<and> \<bar>1 - a0 (s_var ''EV1'' 2)\<bar> \<le> a0 (y_var ''EV1'')
   \<and> feasible m0 (a0(y_var ''EV1'' := a0 (y_var ''EV1'') + 3))
   \<and> linear (model_obj m0) \<and> list_all linear_con (constraints m0)"
proof -
  have v: "''EV1'' \<in> set (model_V p0)" by (simp add: p0_sets)
  have d: "(0::real) \<le> 3" by simp
  have l: "tarsoc p0 ''EV1'' = Some 1" "last (opt_horizon p0) = 2"
    "rho_y p0 = 1" "rho_eps p0 = 1"
    "the (model_E p0 ''EV1'') = 6600" "the (model_E p0 ''EV2'') = 6600"
    by (simp_all add: p0_def model_E_def)
  have y: "a0 (y_var ''EV1'') = 1 / 2" "a0 (y_var ''EV2'') = 0" "a0 eps = 1"
    by (simp_all add: a0_def)
  from objective_and_deviation [OF p0_built a0_feasible v d]
  show ?thesis
    using p0_built a0_feasible v l by (simp add: p0_sets y)
qed

lemma build_needs:
  assumes "build_model p = Inr m"
  shows "v \<in> set (model_V p) \<Longrightarrow> inisoc p v \<noteq> None \<and> tarsoc p v \<noteq> None"
    and "t \<in> set (model_T p) \<Longrightarrow> upperlimit p t \<noteq> None \<and> lowerlimit p t \<noteq> None"
    and "v \<in> set (model_V p) \<Longrightarrow> t \<in> set (model_T p)
           \<Longrightarrow> minsoc p v \<noteq> None \<and> maxsoc p v \<noteq> None \<and> ch_eff p v \<noteq> None
               \<and> ds_eff p v \<noteq> None \<and> deptime p v \<noteq> None"
    and "v \<in> set (model_V p) \<Longrightarrow> t \<in> set (model_T p) \<Longrightarrow> deptime p v = Some t_dep
           \<Longrightarrow> real_of_int t < t_dep \<Longrightarrow> pmax_pos p v \<noteq> None \<and> pmax_neg p v \<noteq> None"
proof -
  note parts = build_model_parts [OF assms]
  show "inisoc p v \<noteq> None \<and> tarsoc p v \<noteq> None" if "v \<in> set (model_V p)"
    using Constraint_member [OF parts(1) that] Constraint_member [OF parts(12) that]
    by (auto simp: initialsoc_def individual_pos_deviation_def Inr_iffs)
  show "upperlimit p t \<noteq> None \<and> lowerlimit p t \<noteq> None" if "t \<in> set (model_T p)"
    using Constraint_member [OF parts(10) that] Constraint_member [OF parts(11) that]
    by (auto simp: cluster_upper_limit_def cluster_lower_limit_def Inr_iffs)
  show "minsoc p v \<noteq> None \<and> maxsoc p v \<noteq> None \<and> ch_eff p v \<noteq> None
               \<and> ds_eff p v \<noteq> None \<and> deptime p v \<noteq> None"
    if v: "v \<in> set (model_V p)" and t: "t \<in> set (model_T p)"
  proof -
    let ?f = "\<lambda>v. sub_e (div_e (model_p_ev_pos p v t) (param (ch_eff p) v))
                            (mul_e (model_p_ev_neg p v t) (param (ds_eff p) v))"
    from Constraint_member [OF parts(8) t]
    obtain e where e: "py_sum (map ?f (model_V p)) = Inr e"
      by (auto simp: ccpower_def Inr_iffs)
    from py_sum_Inr(1) [OF e] v have "ch_eff p v \<noteq> None \<and> ds_eff p v \<noteq> None"
      by (auto simp: Inr_iffs)
    then show ?thesis
      using Constraint2_member [OF parts(2) v t] Constraint2_member [OF parts(3) v t]
        Constraint2_member [OF parts(6) v t]
      by (auto simp: minimumsoc_def maximumsoc_def combinatorics_ch_def Inr_iffs)
  qed
  show "pmax_pos p v \<noteq> None \<and> pmax_neg p v \<noteq> None"
    if "v \<in> set (model_V p)" and "t \<in> set (model_T p)" and "deptime p v = Some t_dep"
      and "real_of_int t < t_dep"
    using Constraint2_member [OF parts(6) that(1,2)] Constraint2_member [OF parts(7) that(1,2)]
      that(3,4)
    by (auto simp: combinatorics_ch_def combinatorics_ds_def Inr_iffs split: if_splits)
qed

lemma p_missing_fails: "build_model p_missing = Inl KeyError"
  by (simp add: p_missing_def p0_def build_simps)

lemma p_short_fails: "build_model p_short = Inl KeyError"
  by (simp add: p_short_def p0_def build_simps)

lemma p_shifted_fails: "build_model p_shifted = Inl KeyError"
  by (simp add: p_shifted_def p0_def build_simps)

text \<open>The exceptions of the operators and of the construction loops.\<close>

lemma bind_Inl_iff: "bind m f = Inl e \<longleftrightarrow> m = Inl e \<or> (\<exists>x. m = Inr x \<and> f x = Inl e)"
  by (cases m) (simp_all add: bind_def)

lemma lift2_Inl_iff: "lift2 f x y = Inl e \<longleftrightarrow> x = Inl e \<or> (\<exists>a. x = Inr a \<and> y = Inl e)"
  by (cases x; cases y) (simp_all add: lift2_def bind_def)

lemma div_e_Inl_iff:
  "div_e x y = Inl e \<longleftrightarrow>
     x = Inl e \<or> (\<exists>a. x = Inr a \<and> y = Inl e)
     \<or> (\<exists>a. x = Inr a \<and> y = Inr (Const 0) \<and> e = ZeroDivisionError)"
  by (cases x; cases y) (auto simp: div_e_def bind_def)

lemma neg_e_Inl_iff: "neg_e x = Inl e \<longleftrightarrow> x = Inl e"
  by (cases x) (simp_all add: neg_e_def bind_def)

lemma getitem_Inl_iff: "getitem ok x = Inl e \<longleftrightarrow> \<not> ok \<and> e = KeyError"
  by (auto simp: getitem_def)

lemma lookup_Inl_iff: "lookup d k = Inl e \<longleftrightarrow> d k = None \<and> e = KeyError"
  by (auto simp: lookup_def split: option.splits)

lemma param_Inl_iff: "param d k = Inl e \<longleftrightarrow> d k = None \<and> e = KeyError"
  by (auto simp: param_def bind_Inl_iff lookup_Inl_iff lookup_Inr_iff num_def)

lemma num_not_Inl: "num c \<noteq> Inl e"
  by (simp add: num_def)

lemma model_eps_not_Inl: "model_eps \<noteq> Inl e"
  by (simp add: model_eps_def)

lemma py_max_Inl_iff: "py_max xs = Inl e \<longleftrightarrow> xs = [] \<and> e = ValueError"
  by (cases xs) auto

lemmas Inl_iffs = bind_Inl_iff lift2_Inl_iff div_e_Inl_iff neg_e_Inl_iff getitem_Inl_iff
  lookup_Inl_iff param_Inl_iff num_not_Inl model_eps_not_Inl py_max_Inl_iff
  add_e_def sub_e_def mul_e_def le_e_def eq_e_def ge_e_def

lemma foldl_add_e_Inl:
  "foldl add_e acc (map f vs) = Inl e \<Longrightarrow> acc = Inl e \<or> (\<exists>v\<in>set vs. f v = Inl e)"
proof (induction vs arbitrary: acc)
  case Nil
  then show ?case by simp
next
  case (Cons v vs)
  from Cons.prems have "foldl add_e (add_e acc (f v)) (map f vs) = Inl e" by simp
  from Cons.IH [OF this] show ?case
    by (auto simp: add_e_def lift2_Inl_iff)
qed

lemma py_sum_Inl: "py_sum (map f vs) = Inl e \<Longrightarrow> \<exists>v\<in>set vs. f v = Inl e"
  using foldl_add_e_Inl [of "num 0" f vs e] by (simp add: py_sum_def num_not_Inl)

lemma Constraint_Inl: "Constraint is r = Inl e \<Longrightarrow> \<exists>i\<in>set is. r i = Inl e"
  by (induction "is") (auto simp: bind_Inl_iff)

lemma Constraint2_Inl:
  "Constraint2 vs ts r = Inl e \<Longrightarrow> \<exists>v\<in>set vs. \<exists>t\<in>set ts. r v t = Inl e"
  unfolding Constraint2_def using Constraint_Inl [of "List.product vs ts" "\<lambda>(v, t). r v t" e]
  by auto

text \<open>The exception of each rule.\<close>

lemma rule_errors:
  "initialsoc p v = Inl e \<Longrightarrow> e = KeyError"
  "minimumsoc p v t = Inl e \<Longrightarrow> e = KeyError"
  "maximumsoc p v t = Inl e \<Longrightarrow> e = KeyError"
  "storageConservation p v t = Inl e
     \<Longrightarrow> e = KeyError \<or> e = ZeroDivisionError \<and> model_E p v = Some 0"
  "chargepowerlimit p v t = Inl e \<Longrightarrow> e = KeyError"
  "combinatorics_ch p v t = Inl e \<Longrightarrow> e = KeyError"
  "combinatorics_ds p v t = Inl e \<Longrightarrow> e = KeyError"
  "cluster_limit_violation p \<noteq> Inl e"
  "cluster_upper_limit p t = Inl e \<Longrightarrow> e = KeyError"
  "cluster_lower_limit p t = Inl e \<Longrightarrow> e = KeyError"
  "individual_pos_deviation p v = Inl e
     \<Longrightarrow> e = KeyError \<or> e = ValueError \<and> opt_horizon p = []"
  "individual_neg_deviation p v = Inl e
     \<Longrightarrow> e = KeyError \<or> e = ValueError \<and> opt_horizon p = []"
  by (auto simp: initialsoc_def minimumsoc_def maximumsoc_def storageConservation_def
      chargepowerlimit_def combinatorics_ch_def combinatorics_ds_def
      cluster_limit_violation_def cluster_upper_limit_def cluster_lower_limit_def
      individual_pos_deviation_def individual_neg_deviation_def
      model_s_def model_p_ev_def model_p_ev_pos_def model_p_ev_neg_def model_x_ev_def
      model_p_cc_def model_y_def Inl_iffs Inr_iffs split: if_splits)

lemma ccpower_error:
  assumes "ccpower p t = Inl e"
  shows "e = KeyError
         \<or> e = ZeroDivisionError \<and> (\<exists>v\<in>set (model_V p). ch_eff p v = Some 0)"
proof -
  let ?f = "\<lambda>v. sub_e (div_e (model_p_ev_pos p v t) (param (ch_eff p) v))
                          (mul_e (model_p_ev_neg p v t) (param (ds_eff p) v))"
  from assms consider "model_p_cc p t = Inl e" | "py_sum (map ?f (model_V p)) = Inl e"
    by (auto simp: ccpower_def eq_e_def lift2_Inl_iff)
  then show ?thesis
  proof cases
    case 1
    then show ?thesis by (simp add: model_p_cc_def getitem_Inl_iff)
  next
    case 2
    from py_sum_Inl [OF 2] obtain v where v: "v \<in> set (model_V p)" "?f v = Inl e" by blast
    from v(2) have "e = KeyError \<or> e = ZeroDivisionError \<and> ch_eff p v = Some 0"
      by (auto simp: model_p_ev_pos_def model_p_ev_neg_def Inl_iffs Inr_iffs)
    with v(1) show ?thesis by blast
  qed
qed

lemma obj_rule_error: "obj_rule p = Inl e \<Longrightarrow> e = KeyError"
proof -
  assume a: "obj_rule p = Inl e"
  let ?f = "\<lambda>v. div_e (mul_e (model_y p v) (param (model_E p) v)) (num 3600)"
  from a have "py_sum (map ?f (model_V p)) = Inl e"
    by (auto simp: obj_rule_def Inl_iffs)
  from py_sum_Inl [OF this] obtain v where "?f v = Inl e" by blast
  then show ?thesis
    by (auto simp: model_y_def Inl_iffs Inr_iffs num_def)
qed


lemma build_model_error:
  assumes "build_model p = Inl e"
  shows "e = KeyError
         \<or> e = ZeroDivisionError
             \<and> (\<exists>v\<in>set (model_V p). model_E p v = Some 0 \<or> ch_eff p v = Some 0)"
proof -
  from assms consider
      (c1) "Constraint (model_V p) (initialsoc p) = Inl e"
    | (c2) "Constraint2 (model_V p) (model_T p) (minimumsoc p) = Inl e"
    | (c3) "Constraint2 (model_V p) (model_T p) (maximumsoc p) = Inl e"
    | (c4) "Constraint2 (model_V p) (model_T p) (storageConservation p) = Inl e"
    | (c5) "Constraint2 (model_V p) (model_T p) (chargepowerlimit p) = Inl e"
    | (c6) "Constraint2 (model_V p) (model_T p) (combinatorics_ch p) = Inl e"
    | (c7) "Constraint2 (model_V p) (model_T p) (combinatorics_ds p) = Inl e"
    | (c8) "Constraint (model_T p) (ccpower p) = Inl e"
    | (c9) "cluster_limit_violation p = Inl e"
    | (c10) "Constraint (model_T p) (cluster_upper_limit p) = Inl e"
    | (c11) "Constraint (model_T p) (cluster_lower_limit p) = Inl e"
    | (c12) cs where "Constraint (model_V p) (initialsoc p) = Inr cs"
        "Constraint (model_V p) (individual_pos_deviation p) = Inl e"
    | (c13) cs where "Constraint (model_V p) (initialsoc p) = Inr cs"
        "Constraint (model_V p) (individual_neg_deviation p) = Inl e"
    | (c14) "obj_rule p = Inl e"
    unfolding build_model_def bind_Inl_iff by blast
  then show ?thesis
  proof cases
    case c1
    from Constraint_Inl [OF c1] rule_errors(1) show ?thesis by blast
  next
    case c2
    from Constraint2_Inl [OF c2] rule_errors(2) show ?thesis by blast
  next
    case c3
    from Constraint2_Inl [OF c3] rule_errors(3) show ?thesis by blast
  next
    case c4
    from Constraint2_Inl [OF c4] rule_errors(4) show ?thesis by blast
  next
    case c5
    from Constraint2_Inl [OF c5] rule_errors(5) show ?thesis by blast
  next
    case c6
    from Constraint2_Inl [OF c6] rule_errors(6) show ?thesis by blast
  next
    case c7
    from Constraint2_Inl [OF c7] rule_errors(7) show ?thesis by blast
  next
    case c8
    from Constraint_Inl [OF c8] ccpower_error show ?thesis by blast
  next
    case c9
    with rule_errors(8) show ?thesis by blast
  next
    case c10
    from Constraint_Inl [OF c10] rule_errors(9) show ?thesis by blast
  next
    case c11
    from Constraint_Inl [OF c11] rule_errors(10) show ?thesis by blast
  next
    case c12
    from Constraint_Inl [OF c12(2)] obtain v where v: "v \<in> set (model_V p)"
      "individual_pos_deviation p v = Inl e" by blast
    from Constraint_member [OF c12(1) v(1)] have "opt_horizon p \<noteq> []"
      by (auto simp: initialsoc_def model_s_def model_Tp_def Inr_iffs)
    with rule_errors(11) [OF v(2)] show ?thesis by simp
  next
    case c13
    from Constraint_Inl [OF c13(2)] obtain v where v: "v \<in> set (model_V p)"
      "individual_neg_deviation p v = Inl e" by blast
    from Constraint_member [OF c13(1) v(1)] have "opt_horizon p \<noteq> []"
      by (auto simp: initialsoc_def model_s_def model_Tp_def Inr_iffs)
    with rule_errors(12) [OF v(2)] show ?thesis by simp
  next
    case c14
    from obj_rule_error [OF c14] show ?thesis by simp
  qed
qed


text \<open>Limit entries for steps that are no flow steps are never read.\<close>

lemma Constraint_cong_set:
  "(\<And>i. i \<in> set is \<Longrightarrow> r i = r' i) \<Longrightarrow> Constraint is r = Constraint is r'"
  by (induction "is") simp_all

lemma limits_outside_T_build:
  assumes "\<forall>t\<in>set (model_T p). up t = upperlimit p t \<and> low t = lowerlimit p t"
  shows "build_model (p\<lparr>upperlimit := up, lowerlimit := low\<rparr>) = build_model p"
proof -
  let ?q = "p\<lparr>upperlimit := up, lowerlimit := low\<rparr>"
  have sets: "model_V ?q = model_V p" "model_T ?q = model_T p" "model_Tp ?q = model_Tp p"
    "model_E ?q = model_E p"
    by (simp_all add: model_V_def model_T_def model_Tp_def model_E_def)
  have vars: "model_p_ev ?q = model_p_ev p" "model_p_ev_pos ?q = model_p_ev_pos p"
    "model_p_ev_neg ?q = model_p_ev_neg p" "model_x_ev ?q = model_x_ev p"
    "model_s ?q = model_s p" "model_p_cc ?q = model_p_cc p" "model_y ?q = model_y p"
    by (simp_all add: fun_eq_iff model_p_ev_def model_p_ev_pos_def model_p_ev_neg_def
        model_x_ev_def model_s_def model_p_cc_def model_y_def sets)
  have rules: "initialsoc ?q = initialsoc p" "minimumsoc ?q = minimumsoc p"
    "maximumsoc ?q = maximumsoc p" "storageConservation ?q = storageConservation p"
    "chargepowerlimit ?q = chargepowerlimit p" "combinatorics_ch ?q = combinatorics_ch p"
    "combinatorics_ds ?q = combinatorics_ds p" "ccpower ?q = ccpower p"
    "cluster_limit_violation ?q = cluster_limit_violation p"
    "individual_pos_deviation ?q = individual_pos_deviation p"
    "individual_neg_deviation ?q = individual_neg_deviation p"
    "obj_rule ?q = obj_rule p" "declare_vars ?q = declare_vars p"
    by (simp_all add: fun_eq_iff initialsoc_def minimumsoc_def maximumsoc_def
        storageConservation_def chargepowerlimit_def combinatorics_ch_def
        combinatorics_ds_def ccpower_def cluster_limit_violation_def
        individual_pos_deviation_def individual_neg_deviation_def obj_rule_def
        declare_vars_def sets vars cong del: if_weak_cong)
  have up: "Constraint (model_T p) (cluster_upper_limit ?q)
              = Constraint (model_T p) (cluster_upper_limit p)"
    by (rule Constraint_cong_set)
      (use assms in \<open>simp add: cluster_upper_limit_def vars param_def lookup_def\<close>)
  have low: "Constraint (model_T p) (cluster_lower_limit ?q)
              = Constraint (model_T p) (cluster_lower_limit p)"
    by (rule Constraint_cong_set)
      (use assms in \<open>simp add: cluster_lower_limit_def vars param_def lookup_def\<close>)
  show ?thesis
    by (simp add: build_model_def sets rules up low)
qed

lemma limits_outside_T_save_steps:
  "save_steps (p\<lparr>upperlimit := up, lowerlimit := low\<rparr>) sol v ts pv sv
     = save_steps p sol v ts pv sv"
  by (induction ts arbitrary: pv sv)
    (simp_all add: model_p_ev_def model_s_def model_V_def model_T_def model_Tp_def
      cong del: if_weak_cong)

lemma limits_outside_T_save_results:
  "save_results (p\<lparr>upperlimit := up, lowerlimit := low\<rparr>) sol vs ps ss
     = save_results p sol vs ps ss"
  by (induction vs arbitrary: ps ss) (simp_all add: limits_outside_T_save_steps)

lemma limits_outside_T_reschedule:
  assumes "\<forall>t\<in>set (model_T p). up t = upperlimit p t \<and> low t = lowerlimit p t"
  shows "reschedule solver (p\<lparr>upperlimit := up, lowerlimit := low\<rparr>) = reschedule solver p"
  by (simp add: reschedule_def limits_outside_T_build [OF assms]
      limits_outside_T_save_results model_V_def)

lemma p_zero_fails: "build_model p_zero = Inl ZeroDivisionError"
  by (simp add: p_zero_def p0_def build_simps)

text \<open>
  C7, as the code has it. Building the model raises, and the solver is never called, when
  a vehicle of bcap has no initial or target SOC; when a limit mapping has no entry for a
  flow step; when there is a flow step and a vehicle has no minimum or maximum SOC, no
  charging or discharging efficiency or no departure index; and when a flow step precedes
  the departure of a vehicle that has no maximum charge or discharge power. The exception
  is KeyError, or ZeroDivisionError where a vehicle has the capacity 0 or the charging
  efficiency 0. Entries of the limit mappings for steps that are no flow steps are
  ignored: limit mappings that agree on the flow steps give the same model and the same
  result.
\<close>

theorem missing_parameter_fails_before_solving:
  "((\<exists>v\<in>set (model_V p). inisoc p v = None \<or> tarsoc p v = None)
      \<or> (\<exists>t\<in>set (model_T p). upperlimit p t = None \<or> lowerlimit p t = None)
      \<or> (\<exists>v\<in>set (model_V p). \<exists>t\<in>set (model_T p).
            minsoc p v = None \<or> maxsoc p v = None \<or> ch_eff p v = None
            \<or> ds_eff p v = None \<or> deptime p v = None
            \<or> (\<exists>t_dep. deptime p v = Some t_dep \<and> real_of_int t < t_dep
                  \<and> (pmax_pos p v = None \<or> pmax_neg p v = None)))
    \<longrightarrow> (\<exists>e. build_model p = Inl e \<and> reschedule solver p = Inl e
           \<and> (e = KeyError
               \<or> e = ZeroDivisionError
                   \<and> (\<exists>v\<in>set (model_V p). model_E p v = Some 0 \<or> ch_eff p v = Some 0))))
   \<and> ((\<forall>t\<in>set (model_T p). up t = upperlimit p t \<and> low t = lowerlimit p t)
    \<longrightarrow> build_model (p\<lparr>upperlimit := up, lowerlimit := low\<rparr>) = build_model p
        \<and> reschedule solver (p\<lparr>upperlimit := up, lowerlimit := low\<rparr>) = reschedule solver p)"
proof (intro conjI impI)
  assume missing: "(\<exists>v\<in>set (model_V p). inisoc p v = None \<or> tarsoc p v = None)
      \<or> (\<exists>t\<in>set (model_T p). upperlimit p t = None \<or> lowerlimit p t = None)
      \<or> (\<exists>v\<in>set (model_V p). \<exists>t\<in>set (model_T p).
            minsoc p v = None \<or> maxsoc p v = None \<or> ch_eff p v = None
            \<or> ds_eff p v = None \<or> deptime p v = None
            \<or> (\<exists>t_dep. deptime p v = Some t_dep \<and> real_of_int t < t_dep
                  \<and> (pmax_pos p v = None \<or> pmax_neg p v = None)))"
  show "\<exists>e. build_model p = Inl e \<and> reschedule solver p = Inl e
           \<and> (e = KeyError
               \<or> e = ZeroDivisionError
                   \<and> (\<exists>v\<in>set (model_V p). model_E p v = Some 0 \<or> ch_eff p v = Some 0))"
  proof (cases "build_model p")
    case (Inl e)
    from build_model_error [OF Inl] Inl show ?thesis
      by (simp add: reschedule_build_error)
  next
    case (Inr m)
    from missing build_needs [OF Inr] have False by blast
    then show ?thesis ..
  qed
next
  assume "\<forall>t\<in>set (model_T p). up t = upperlimit p t \<and> low t = lowerlimit p t"
  then show "build_model (p\<lparr>upperlimit := up, lowerlimit := low\<rparr>) = build_model p"
    by (rule limits_outside_T_build)
next
  assume "\<forall>t\<in>set (model_T p). up t = upperlimit p t \<and> low t = lowerlimit p t"
  then show "reschedule solver (p\<lparr>upperlimit := up, lowerlimit := low\<rparr>)
               = reschedule solver p"
    by (rule limits_outside_T_reschedule)
qed

text \<open>
  EV2 without initial SOC and an upper limit without step 1 raise KeyError; with the
  capacity 0 of EV1 the division of the conservation rule comes before the lookup of the
  missing limit and raises ZeroDivisionError; an upper limit with an entry for step 5
  changes nothing.
\<close>

theorem missing_parameter_fails_before_solving_witness:
  "''EV2'' \<in> set (model_V p_missing) \<and> inisoc p_missing ''EV2'' = None
   \<and> build_model p_missing = Inl KeyError \<and> reschedule solver0 p_missing = Inl KeyError
   \<and> 1 \<in> set (model_T p_short) \<and> upperlimit p_short 1 = None
   \<and> build_model p_short = Inl KeyError \<and> reschedule solver0 p_short = Inl KeyError
   \<and> 1 \<in> set (model_T p_zero) \<and> upperlimit p_zero 1 = None
   \<and> ''EV1'' \<in> set (model_V p_zero) \<and> model_E p_zero ''EV1'' = Some 0
   \<and> build_model p_zero = Inl ZeroDivisionError
   \<and> reschedule solver0 p_zero = Inl ZeroDivisionError
   \<and> model_T p0 = [0, 1]
   \<and> [0 \<mapsto> 10, 1 \<mapsto> 10, 5 \<mapsto> 10] 0 = upperlimit p0 0
   \<and> [0 \<mapsto> 10, 1 \<mapsto> 10, 5 \<mapsto> (10::real)] 1 = upperlimit p0 1
   \<and> build_model (p0\<lparr>upperlimit := [0 \<mapsto> 10, 1 \<mapsto> 10, 5 \<mapsto> 10],
                      lowerlimit := lowerlimit p0\<rparr>) = build_model p0
   \<and> reschedule solver0 (p0\<lparr>upperlimit := [0 \<mapsto> 10, 1 \<mapsto> 10, 5 \<mapsto> 10],
                             lowerlimit := lowerlimit p0\<rparr>) = reschedule solver0 p0"
proof -
  have v: "''EV2'' \<in> set (model_V p_missing)" "inisoc p_missing ''EV2'' = None"
    by (simp_all add: p_missing_def p0_def model_V_def)
  have t: "1 \<in> set (model_T p_short)" "upperlimit p_short 1 = None"
    by (simp_all add: p_short_def p0_def model_T_def)
  have z: "1 \<in> set (model_T p_zero)" "upperlimit p_zero 1 = None"
    "''EV1'' \<in> set (model_V p_zero)" "model_E p_zero ''EV1'' = Some 0"
    by (simp_all add: p_zero_def p0_def model_T_def model_V_def model_E_def)
  have u: "\<forall>t\<in>set (model_T p0). [0 \<mapsto> 10, 1 \<mapsto> 10, 5 \<mapsto> 10] t = upperlimit p0 t
                                 \<and> lowerlimit p0 t = lowerlimit p0 t"
    by (simp add: p0_sets) (simp add: p0_def)
  have u01: "[0 \<mapsto> 10, 1 \<mapsto> 10, 5 \<mapsto> 10] 0 = upperlimit p0 0"
    "[0 \<mapsto> 10, 1 \<mapsto> 10, 5 \<mapsto> (10::real)] 1 = upperlimit p0 1"
    by (simp_all add: p0_def)
  note thm1 = missing_parameter_fails_before_solving
    [of p_missing solver0 "upperlimit p_missing" "lowerlimit p_missing"]
  note thm2 = missing_parameter_fails_before_solving
    [of p_short solver0 "upperlimit p_short" "lowerlimit p_short"]
  note thm3 = missing_parameter_fails_before_solving
    [of p_zero solver0 "upperlimit p_zero" "lowerlimit p_zero"]
  note thm4 = missing_parameter_fails_before_solving
    [of p0 solver0 "[0 \<mapsto> 10, 1 \<mapsto> 10, 5 \<mapsto> 10]" "lowerlimit p0"]
  have 1: "reschedule solver0 p_missing = Inl KeyError"
    using thm1 v by (auto simp: p_missing_fails)
  have 2: "reschedule solver0 p_short = Inl KeyError"
    using thm2 t by (auto simp: p_short_fails)
  have 3: "reschedule solver0 p_zero = Inl ZeroDivisionError"
    using thm3 z(1,2) by (auto simp: p_zero_fails)
  have 4: "build_model (p0\<lparr>upperlimit := [0 \<mapsto> 10, 1 \<mapsto> 10, 5 \<mapsto> 10],
                      lowerlimit := lowerlimit p0\<rparr>) = build_model p0
   \<and> reschedule solver0 (p0\<lparr>upperlimit := [0 \<mapsto> 10, 1 \<mapsto> 10, 5 \<mapsto> 10],
                             lowerlimit := lowerlimit p0\<rparr>) = reschedule solver0 p0"
    using thm4 u by blast
  from 1 2 3 4 v t z u01 show ?thesis
    by (simp add: p_missing_fails p_short_fails p_zero_fails p0_sets)
qed

text \<open>
  In \<open>p_mismatch\<close> the upper limit has an entry for step 5, which is no flow step, and EV2
  has neither maximum power; its departure index 0 precedes no flow step, so no rule reads
  them. The model is built and reschedule returns.
\<close>

theorem missing_parameter_counterexample:
  "''EV2'' \<in> set (model_V p_mismatch) \<and> pmax_pos p_mismatch ''EV2'' = None
   \<and> pmax_neg p_mismatch ''EV2'' = None
   \<and> upperlimit p_mismatch 5 = Some 10 \<and> 5 \<notin> set (model_T p_mismatch)
   \<and> \<not> isl (build_model p_mismatch) \<and> \<not> isl (reschedule solver0 p_mismatch)"
proof -
  obtain m where m: "build_model p_mismatch = Inr m"
    using p_mismatch_built by (cases "build_model p_mismatch") auto
  have s: "solver0 m = Inr \<lparr> termination_condition = optimal, solution = Some a0 \<rparr>"
    by (simp add: solver0_def)
  from reschedule_value [where solver = solver0, OF m s]
  have "\<not> isl (reschedule solver0 p_mismatch)" by simp
  then show ?thesis
    using p_mismatch_built
    by (simp add: p_mismatch_def p0_def model_V_def model_T_def)
qed

text \<open>
  C8, as the code has it. reschedule never looks at the result object of the solver. When
  the call of the solver raises, the exception reaches the caller and nothing is returned.
  When the solver returns, whatever the termination condition, reschedule returns both
  dictionaries with an entry for every vehicle and step, read from the variables of the
  model: the entries are None when the solver loaded no solution.
\<close>

theorem solver_outcome_not_inspected:
  assumes "build_model p = Inr m"
  shows "reschedule solver p
           = (case solver m of
                Inl e \<Rightarrow> Inl e
              | Inr result \<Rightarrow>
                  Inr (\<lambda>v. if v \<in> set (model_V p)
                            then Some (\<lambda>t. if t \<in> set (model_T p)
                                            then Some (map_option (\<lambda>a. a (p_ev v t))
                                                         (solution result))
                                            else None)
                            else None,
                       \<lambda>v. if v \<in> set (model_V p)
                            then Some (\<lambda>t. if t \<in> set (model_Tp p)
                                            then Some (map_option (\<lambda>a. a (s_var v t))
                                                         (solution result))
                                            else None)
                            else None))"
proof (cases "solver m")
  case (Inl e)
  then show ?thesis
    by (simp add: reschedule_solver_error [where solver = solver, OF assms Inl])
next
  case (Inr result)
  then show ?thesis
    by (simp add: reschedule_value [where solver = solver, OF assms Inr] call_def
        cong del: if_weak_cong)
qed

theorem solver_outcome_not_inspected_witness:
  "build_model p0 = Inr m0
   \<and> reschedule solver_unavailable p0 = Inl SolverError
   \<and> (\<exists>ps ss pv sv. reschedule solver_infeasible p0 = Inr (ps, ss)
         \<and> ps ''EV1'' = Some pv \<and> pv 0 = Some None \<and> pv 1 = Some None \<and> pv 2 = None
         \<and> ss ''EV1'' = Some sv \<and> sv 2 = Some None)"
  using solver_outcome_not_inspected [OF p0_built, of solver_unavailable]
    solver_outcome_not_inspected [OF p0_built, of solver_infeasible] p0_built
  by (simp add: solver_unavailable_def solver_infeasible_def p0_sets)

text \<open>
  The solver reports infeasibility and loads no value; reschedule returns, and the entries
  of both dictionaries are None.
\<close>

theorem solver_failure_counterexample:
  "build_model p0 = Inr m0
   \<and> solver_infeasible m0 = Inr \<lparr> termination_condition = infeasible, solution = None \<rparr>
   \<and> \<not> isl (reschedule solver_infeasible p0)
   \<and> the (fst (projr (reschedule solver_infeasible p0)) ''EV1'') 0 = Some None
   \<and> the (snd (projr (reschedule solver_infeasible p0)) ''EV1'') 0 = Some None"
proof -
  have s: "solver_infeasible m0 = Inr \<lparr> termination_condition = infeasible, solution = None \<rparr>"
    by (simp add: solver_infeasible_def)
  from reschedule_value [where solver = solver_infeasible, OF p0_built s] p0_built s
  show ?thesis by (simp add: p0_sets call_def)
qed

text \<open>When the model is built, the horizon has every index from 0 up to its last one.\<close>

lemma horizon_contiguous:
  assumes "build_model p = Inr m" and "v \<in> set (model_V p)"
  shows "int n \<le> Max (set (opt_horizon p)) \<Longrightarrow> int n \<in> set (model_Tp p)"
proof (induction n)
  case 0
  then show ?case using horizon_nonempty(2) [OF assms] by (simp add: model_Tp_def)
next
  case (Suc n)
  then have "int n \<in> set (model_Tp p)" and "int n < Max (set (opt_horizon p))" by simp_all
  from below_max_in_T [OF assms this] have "int n \<in> set (model_T p)" .
  from storageConservation_built [OF assms this] show ?case by (simp add: add.commute)
qed

lemma departed_soc_constant:
  assumes "build_model p = Inr m" and "feasible m a" and "v \<in> set (model_V p)"
    and "deptime p v = Some t_dep" and "t_dep \<le> 0" and "inisoc p v = Some ini"
  shows "int n \<in> set (model_Tp p) \<Longrightarrow> a (s_var v (int n)) = ini"
proof (induction n)
  case 0
  then show ?case using initialsoc_sem [OF assms(1,2,3)] assms(6) by simp
next
  case (Suc n)
  have ne: "opt_horizon p \<noteq> []" by (rule horizon_nonempty(1) [OF assms(1,3)])
  from Suc.prems have le: "int (Suc n) \<le> Max (set (opt_horizon p))"
    by (simp add: model_Tp_def)
  then have n: "int n \<in> set (model_Tp p)"
    using horizon_contiguous [OF assms(1,3), of n] by simp
  from le have "int n < Max (set (opt_horizon p))" by simp
  from below_max_in_T [OF assms(1,3) n this] have t: "int n \<in> set (model_T p)" .
  from combinatorics_ch_sem [OF assms(1,2,3) t] combinatorics_ds_sem [OF assms(1,2,3) t]
    assms(4,5)
  have z: "a (p_ev_pos v (int n)) = 0" "a (p_ev_neg v (int n)) = 0" by auto
  from storageConservation_sem [OF assms(1,2,3) t] z Suc.IH [OF n]
  show ?case by (auto simp: add.commute)
qed

text \<open>
  C9. A vehicle v whose departure index is at most 0 has, in every feasible solution, the
  returned power 0 in every flow step and the returned SOC equal to its initial SOC in
  every step, the terminal one included. The steps are numbered as the interface numbers
  them, from the call time 0 onwards: no index of the horizon is negative.
\<close>

theorem departed_vehicle_idle:
  assumes "build_model p = Inr m" and "solver m = Inr result" and "solution result = Some a"
    and "feasible m a" and "v \<in> set (model_V p)"
    and "deptime p v = Some t_dep" and "t_dep \<le> 0"
    and "list_all (\<lambda>t. 0 \<le> t) (opt_horizon p)"
    and "t \<in> set (model_Tp p)"
  shows "\<exists>ini ps ss pv sv.
           inisoc p v = Some ini
           \<and> reschedule solver p = Inr (ps, ss) \<and> ps v = Some pv \<and> ss v = Some sv
           \<and> a (s_var v t) = ini \<and> sv t = Some (Some ini)
           \<and> (if t \<in> set (model_T p) then a (p_ev v t) = 0 \<and> pv t = Some (Some 0)
               else t = last (opt_horizon p) \<and> pv t = None)"
proof -
  obtain ini where ini: "inisoc p v = Some ini"
    using initialsoc_sem [OF assms(1,4,5)] by blast
  from assms(8,9) have "0 \<le> t" by (simp add: list_all_iff model_Tp_def)
  then obtain n where n: "t = int n" using nonneg_int_cases by blast
  from departed_soc_constant [OF assms(1,4,5,6,7) ini, of n] assms(9) n
  have soc: "a (s_var v t) = ini" by simp
  obtain ps ss pv sv where r: "reschedule solver p = Inr (ps, ss)" "ps v = Some pv"
    "ss v = Some sv"
    "\<forall>t. pv t = (if t \<in> set (model_T p) then Some (Some (a (p_ev v t))) else None)"
    "\<forall>t. sv t = (if t \<in> set (model_Tp p) then Some (Some (a (s_var v t))) else None)"
    using returned_entries [where solver = solver, OF assms(1,2,3,5)] by blast
  from r(5) assms(9) soc have sv: "sv t = Some (Some ini)" by simp
  have pw: "a (p_ev v t) = 0" if t: "t \<in> set (model_T p)"
  proof -
    from \<open>0 \<le> t\<close> assms(7) have "real_of_int t \<ge> t_dep" by simp
    with combinatorics_ch_sem [OF assms(1,4,5) t] combinatorics_ds_sem [OF assms(1,4,5) t]
      assms(6) chargepowerlimit_sem [OF assms(1,4,5) t]
    show ?thesis by auto
  qed
  show ?thesis
  proof (cases "t \<in> set (model_T p)")
    case True
    with pw r ini soc sv show ?thesis by auto
  next
    case False
    with Tp_cases [OF assms(9)] have "t = last (opt_horizon p)" by simp
    with False r ini soc sv show ?thesis by auto
  qed
qed

theorem departed_vehicle_idle_witness:
  "build_model p0 = Inr m0
   \<and> solver0 m0 = Inr \<lparr> termination_condition = optimal, solution = Some a0 \<rparr>
   \<and> feasible m0 a0 \<and> ''EV2'' \<in> set (model_V p0)
   \<and> deptime p0 ''EV2'' = Some 0 \<and> (0::real) \<le> 0
   \<and> list_all (\<lambda>t. 0 \<le> t) (opt_horizon p0)
   \<and> 1 \<in> set (model_Tp p0) \<and> 2 \<in> set (model_Tp p0)
   \<and> inisoc p0 ''EV2'' = Some (1 / 2)
   \<and> a0 (s_var ''EV2'' 1) = 1 / 2 \<and> a0 (s_var ''EV2'' 2) = 1 / 2 \<and> a0 (p_ev ''EV2'' 1) = 0
   \<and> (\<exists>ps ss pv sv. reschedule solver0 p0 = Inr (ps, ss)
         \<and> ps ''EV2'' = Some pv \<and> ss ''EV2'' = Some sv
         \<and> pv 1 = Some (Some 0) \<and> pv 2 = None
         \<and> sv 1 = Some (Some (1 / 2)) \<and> sv 2 = Some (Some (1 / 2)))"
proof -
  have s: "solver0 m0 = Inr \<lparr> termination_condition = optimal, solution = Some a0 \<rparr>"
    by (simp add: solver0_def)
  have sol: "solution \<lparr> termination_condition = optimal, solution = Some a0 \<rparr> = Some a0"
    by simp
  have v: "''EV2'' \<in> set (model_V p0)" and t: "1 \<in> set (model_Tp p0)" "2 \<in> set (model_Tp p0)"
    and tt: "1 \<in> set (model_T p0)" "2 \<notin> set (model_T p0)"
    by (simp_all add: p0_sets)
  have d: "deptime p0 ''EV2'' = Some 0" "inisoc p0 ''EV2'' = Some (1 / 2)"
    "list_all (\<lambda>t. 0 \<le> t) (opt_horizon p0)"
    by (simp_all add: p0_def)
  have z: "(0::real) \<le> 0" by simp
  from departed_vehicle_idle [where solver = solver0,
      OF p0_built s sol a0_feasible v d(1) z d(3) t(1)]
    departed_vehicle_idle [where solver = solver0,
      OF p0_built s sol a0_feasible v d(1) z d(3) t(2)]
  show ?thesis
    using p0_built s a0_feasible v t tt d by auto
qed







end
